theory Spec2Isabelle
  imports Complex_Main "HOL-Library.AList" "HOL-Library.Sublist" "HOL-Library.Log_Nat"
begin

section \<open>Python values\<close>

text \<open>
  A Python \<open>str\<close> is modelled as its UTF-8 encoding, a \<^typ>\<open>string\<close>. UTF-8 is
  injective, so equality of the encodings is equality of the Python strings. The
  non-ASCII characters of the labels in \<open>analysis/scoring.py\<close> are spelled out.
\<close>

definition FULLWIDTH_PLUS :: string where
  \<comment> \<open>U+FF0B\<close>
  "FULLWIDTH_PLUS = [CHR 0xEF, CHR 0xBC, CHR 0x8B]"

definition MINUS_SIGN :: string where
  \<comment> \<open>U+2212\<close>
  "MINUS_SIGN = [CHR 0xE2, CHR 0x88, CHR 0x92]"

definition UP_ARROW :: string where
  \<comment> \<open>U+2191\<close>
  "UP_ARROW = [CHR 0xE2, CHR 0x86, CHR 0x91]"

definition DOWN_ARROW :: string where
  \<comment> \<open>U+2193\<close>
  "DOWN_ARROW = [CHR 0xE2, CHR 0x86, CHR 0x93]"

definition EM_DASH :: string where
  \<comment> \<open>U+2014\<close>
  "EM_DASH = [CHR 0xE2, CHR 0x80, CHR 0x94]"

text \<open>Decimal digits of a natural number, as \<open>str(n)\<close> prints them.\<close>

definition digit_char :: "nat \<Rightarrow> char" where
  "digit_char d = ''0123456789'' ! (d mod 10)"

fun digits :: "nat \<Rightarrow> string" where
  "digits n =
     (if n < 10 then [digit_char n]
      else digits (n div 10) @ [digit_char (n mod 10)])"

declare digits.simps [simp del]

definition str_int :: "int \<Rightarrow> string" where
  \<comment> \<open>\<open>str(i)\<close> for an \<open>int\<close>\<close>
  "str_int i = (if i < 0 then ''-'' @ digits (nat (- i)) else digits (nat i))"

definition format_plus_d :: "int \<Rightarrow> string" where
  \<comment> \<open>the format specification \<open>{i:+d}\<close>: the sign always, then the digits\<close>
  "format_plus_d i = (if i < 0 then ''-'' else ''+'') @ digits (nat \<bar>i\<bar>)"

text \<open>
  The objects that reach the scoring engine through a \<open>Mapping[str, object]\<close>: \<open>None\<close>,
  an \<open>int\<close> (unbounded) or a \<open>str\<close>.
\<close>

datatype pyobj = PyNone | PyInt int | PyStr string

datatype error = TypeError | ValueError | IndexError | OverflowError | ZeroDivisionError

text \<open>
  What \<open>int\<close> makes of a text, what \<open>str\<close> makes of an integer and what \<open>str.upper\<close> makes
  of a text depend on the interpreter: on its tables of digits, blanks and letters and on
  its limit on the number of digits of a conversion. They are parameters of the model;
  \<open>None\<close> stands for the \<open>ValueError\<close> of a conversion.
\<close>

record builtins =
  int_of_str :: "string \<Rightarrow> int option"
  str_of_int :: "int \<Rightarrow> string option"
  str_upper :: "string \<Rightarrow> string"

definition py_int :: "builtins \<Rightarrow> pyobj \<Rightarrow> error + int" where
  \<comment> \<open>the builtin \<open>int(x)\<close>\<close>
  "py_int py x =
     (case x of
        PyInt i \<Rightarrow> Inr i
      | PyNone \<Rightarrow> Inl TypeError
      | PyStr s \<Rightarrow> (case int_of_str py s of None \<Rightarrow> Inl ValueError | Some i \<Rightarrow> Inr i))"

definition py_str :: "builtins \<Rightarrow> pyobj \<Rightarrow> error + string" where
  \<comment> \<open>the builtin \<open>str(x)\<close>\<close>
  "py_str py x =
     (case x of
        PyStr s \<Rightarrow> Inr s
      | PyNone \<Rightarrow> Inr ''None''
      | PyInt i \<Rightarrow> (case str_of_int py i of None \<Rightarrow> Inl ValueError | Some s \<Rightarrow> Inr s))"

subsection \<open>Floating point\<close>

text \<open>
  A Python \<open>float\<close> is an IEEE 754 binary64 number: a finite value, given here by the
  rational number it stands for, an infinity or a NaN. The sign of a zero is not
  represented; \<open>==\<close> does not see it, and nothing below depends on it.
\<close>

datatype pyfloat = Finite rat | PInf | NInf | FNaN

definition round_half_even :: "rat \<Rightarrow> int" where
  \<comment> \<open>the nearest integer, a tie to the even neighbour\<close>
  "round_half_even x =
     (if x - of_int \<lfloor>x\<rfloor> = 1 / 2 then (if even \<lfloor>x\<rfloor> then \<lfloor>x\<rfloor> else \<lfloor>x\<rfloor> + 1)
      else \<lfloor>x + 1 / 2\<rfloor>)"

definition expo :: "rat \<Rightarrow> int" where
  \<comment> \<open>the binary exponent of a nonzero number: \<open>2 ** expo q \<le> |q| < 2 ** (expo q + 1)\<close>\<close>
  "expo q =
     (let (a, b) = quotient_of \<bar>q\<bar>; d = bitlen a - bitlen b
      in if 2 powi d \<le> \<bar>q\<bar> then d else d - 1)"

definition fl :: "rat \<Rightarrow> pyfloat" where
  \<comment> \<open>rounding to binary64, to nearest and ties to even: 53 significant bits, the
      exponent not below -1022 (below it the numbers are subnormal), an infinity from
      \<open>2 ** 1024\<close> on\<close>
  "fl q =
     (if q = 0 then Finite 0
      else
        (let u = 2 powi (max (expo q) (- 1022) - 52);
             r = of_int (round_half_even (q / u)) * u
         in if 2 ^ 1024 \<le> \<bar>r\<bar> then (if 0 < q then PInf else NInf) else Finite r))"

definition float_of_int :: "int \<Rightarrow> error + pyfloat" where
  \<comment> \<open>the conversion of an \<open>int\<close> operand of a float operation: \<open>OverflowError\<close> when the
      integer is too large\<close>
  "float_of_int i = (case fl (of_int i) of Finite r \<Rightarrow> Inr (Finite r) | _ \<Rightarrow> Inl OverflowError)"

definition int_truediv :: "int \<Rightarrow> int \<Rightarrow> error + pyfloat" where
  \<comment> \<open>\<open>a / b\<close> on two \<open>int\<close>: the quotient rounded once\<close>
  "int_truediv a b =
     (if b = 0 then Inl ZeroDivisionError
      else case fl (of_int a / of_int b) of Finite r \<Rightarrow> Inr (Finite r) | _ \<Rightarrow> Inl OverflowError)"

definition fsign :: "pyfloat \<Rightarrow> int" where
  \<comment> \<open>1, -1 or, for a zero and a NaN, 0\<close>
  "fsign a =
     (case a of
        Finite x \<Rightarrow> (if 0 < x then 1 else if x < 0 then - 1 else 0)
      | PInf \<Rightarrow> 1
      | NInf \<Rightarrow> - 1
      | FNaN \<Rightarrow> 0)"

definition float_mul :: "pyfloat \<Rightarrow> pyfloat \<Rightarrow> pyfloat" where
  \<comment> \<open>\<open>a * b\<close> on two \<open>float\<close>: no exception, an infinity on overflow\<close>
  "float_mul a b =
     (case (a, b) of
        (Finite x, Finite y) \<Rightarrow> fl (x * y)
      | _ \<Rightarrow>
          if a = FNaN \<or> b = FNaN \<or> fsign a * fsign b = 0 then FNaN
          else if 0 < fsign a * fsign b then PInf else NInf)"

definition float_add :: "pyfloat \<Rightarrow> pyfloat \<Rightarrow> pyfloat" where
  \<comment> \<open>\<open>a + b\<close> on two \<open>float\<close>\<close>
  "float_add a b =
     (case (a, b) of
        (Finite x, Finite y) \<Rightarrow> fl (x + y)
      | (Finite x, _) \<Rightarrow> b
      | (_, Finite y) \<Rightarrow> a
      | _ \<Rightarrow> if a = b then a else FNaN)"

definition float_truediv :: "pyfloat \<Rightarrow> pyfloat \<Rightarrow> error + pyfloat" where
  \<comment> \<open>\<open>a / b\<close> on two \<open>float\<close>\<close>
  "float_truediv a b =
     (if b = Finite 0 then Inl ZeroDivisionError
      else
        Inr (case (a, b) of
               (Finite x, Finite y) \<Rightarrow> fl (x / y)
             | (Finite x, _) \<Rightarrow> if b = FNaN then FNaN else Finite 0
             | (_, Finite y) \<Rightarrow>
                 if a = FNaN then FNaN else if 0 < fsign a * fsign b then PInf else NInf
             | _ \<Rightarrow> FNaN))"

text \<open>
  \<open>round(x)\<close> follows \<open>float.__round__\<close> of CPython: the C function \<open>round\<close> (halves away
  from zero), corrected to the even neighbour on a tie; each step is exact on a binary64
  value. An infinity raises \<open>OverflowError\<close>, a NaN raises \<open>ValueError\<close>.
\<close>

definition c_round :: "rat \<Rightarrow> int" where
  "c_round x = (if x \<ge> 0 then \<lfloor>x + 1 / 2\<rfloor> else - \<lfloor>- x + 1 / 2\<rfloor>)"

definition py_round :: "rat \<Rightarrow> int" where
  "py_round x =
     (let rounded = c_round x
      in if \<bar>x - of_int rounded\<bar> = 1 / 2 then 2 * c_round (x / 2) else rounded)"

definition float_round :: "pyfloat \<Rightarrow> error + int" where
  "float_round a =
     (case a of
        Finite x \<Rightarrow> Inr (py_round x)
      | PInf \<Rightarrow> Inl OverflowError
      | NInf \<Rightarrow> Inl OverflowError
      | FNaN \<Rightarrow> Inl ValueError)"

definition py_round_ndigits :: "pyfloat \<Rightarrow> nat \<Rightarrow> error + pyfloat" where
  \<comment> \<open>\<open>round(x, ndigits)\<close> for a small \<open>ndigits \<ge> 0\<close>: an infinity or a NaN is returned as
      it is; a finite value is rounded to the decimal with \<open>ndigits\<close> places, ties to
      even, and the decimal is rounded to binary64\<close>
  "py_round_ndigits a ndigits =
     (case a of
        Finite x \<Rightarrow>
          (case fl (of_int (round_half_even (x * 10 ^ ndigits)) / 10 ^ ndigits) of
             Finite r \<Rightarrow> Inr (Finite r)
           | _ \<Rightarrow> Inl OverflowError)
      | _ \<Rightarrow> Inr a)"

section \<open>Domain model (domain/models.py)\<close>

type_synonym pydate = int

record PatternHit =
  hit_fn :: string
  hit_value :: int
  hit_strength :: "pyfloat option"
  hit_base_score :: "int option"
  hit_weighted_score :: "pyfloat option"
  hit_variant :: pyobj
  hit_english :: pyobj
  hit_japanese :: pyobj
  hit_typical_setup :: pyobj
  hit_next_move :: pyobj
  hit_description :: pyobj
  hit_date :: "pydate option"

text \<open>
  What the scoring functions iterate over: a \<open>PatternHit\<close> or a mapping from field
  names to objects.
\<close>

datatype hit = Enriched PatternHit | Raw "string \<rightharpoonup> pyobj"

section \<open>Bias table (analysis/scoring.py)\<close>

text \<open>
  One entry of \<open>_bias_map()\<close>: the dictionary with the keys \<open>score\<close>, \<open>variant\<close>,
  \<open>english\<close>, \<open>japanese\<close>, \<open>typical\<close>, \<open>next_move\<close> and \<open>description\<close>. \<open>_bias_map\<close>
  stores an \<open>int\<close> under \<open>score\<close> in every entry.
\<close>

record bias_entry =
  e_score :: int
  e_variant :: pyobj
  e_english :: pyobj
  e_japanese :: pyobj
  e_typical :: pyobj
  e_next_move :: pyobj
  e_description :: pyobj

text \<open>
  The module state the scoring functions read. \<open>CLIP_MIN\<close> and \<open>CLIP_MAX\<close> come from
  \<open>config.yaml\<close>; \<open>bias_map\<close> is the value of \<open>_bias_map()\<close>, built from the CSV resource,
  which is not part of the sources: per detector the dictionary from variant to entry,
  in insertion order.
\<close>

record scoring =
  CLIP_MIN :: int
  CLIP_MAX :: int
  bias_map :: "string \<rightharpoonup> (string \<times> bias_entry) list"

definition default_clip :: "(string \<rightharpoonup> (string \<times> bias_entry) list) \<Rightarrow> scoring" where
  \<comment> \<open>the values of the \<open>except\<close> branch and of the \<open>cfg.get\<close> defaults\<close>
  "default_clip bm = \<lparr>CLIP_MIN = - 5, CLIP_MAX = 5, bias_map = bm\<rparr>"

definition empty_entry :: bias_entry where
  "empty_entry =
     \<lparr>e_score = 0, e_variant = PyNone, e_english = PyNone, e_japanese = PyNone,
      e_typical = PyNone, e_next_move = PyNone, e_description = PyNone\<rparr>"

definition normalize_variant :: "int \<Rightarrow> string" where
  "normalize_variant v =
     (if v > 0 then ''bullish'' else if v < 0 then ''bearish'' else ''neutral'')"

definition lookup_bias :: "scoring \<Rightarrow> string \<Rightarrow> int \<Rightarrow> bias_entry" where
  "lookup_bias env fn v =
     (case bias_map env fn of
        None \<Rightarrow> empty_entry
      | Some bias_for_fn \<Rightarrow>
          if bias_for_fn = [] then empty_entry
          else
            (case map_of bias_for_fn (normalize_variant v) of
               Some entry \<Rightarrow> entry
             | None \<Rightarrow>
                 (case map_of bias_for_fn ''neutral'' of
                    Some entry \<Rightarrow> entry
                  | None \<Rightarrow> snd (hd bias_for_fn))))"

section \<open>Scoring engine (analysis/scoring.py)\<close>

definition base_score :: "scoring \<Rightarrow> string \<Rightarrow> int \<Rightarrow> int" where
  "base_score env fn v = e_score (lookup_bias env fn v)"

definition extract_hit :: "builtins \<Rightarrow> hit \<Rightarrow> error + string \<times> int" where
  "extract_hit py h =
     (case h of
        Enriched p \<Rightarrow> Inr (hit_fn p, hit_value p)
      | Raw m \<Rightarrow>
          (case py_str py (case m ''fn'' of None \<Rightarrow> PyNone | Some x \<Rightarrow> x) of
             Inl e \<Rightarrow> Inl e
           | Inr fn \<Rightarrow>
               (case py_int py (case m ''value'' of None \<Rightarrow> PyInt 0 | Some x \<Rightarrow> x) of
                  Inl e \<Rightarrow> Inl e
                | Inr v \<Rightarrow> Inr (fn, v))))"

text \<open>
  The \<open>for\<close> loop of \<open>total_score_from_hits\<close>, the running total as accumulator. In
  \<open>abs(value) / 100.0\<close> and in \<open>base * strength\<close> the \<open>int\<close> operand is converted first.
\<close>

fun score_loop :: "builtins \<Rightarrow> scoring \<Rightarrow> pyfloat \<Rightarrow> hit list \<Rightarrow> error + pyfloat" where
  "score_loop py env score [] = Inr score"
| "score_loop py env score (raw # hits) =
     (case extract_hit py raw of
        Inl e \<Rightarrow> Inl e
      | Inr (fn, v) \<Rightarrow>
          (let base = \<bar>base_score env fn v\<bar> * (if v > 0 then 1 else - 1)
           in case float_of_int \<bar>v\<bar> of
                Inl e \<Rightarrow> Inl e
              | Inr fv \<Rightarrow>
                  (case float_truediv fv (Finite 100) of
                     Inl e \<Rightarrow> Inl e
                   | Inr strength \<Rightarrow>
                       (case float_of_int base of
                          Inl e \<Rightarrow> Inl e
                        | Inr fb \<Rightarrow>
                            score_loop py env (float_add score (float_mul fb strength)) hits))))"

definition total_score_from_hits :: "builtins \<Rightarrow> scoring \<Rightarrow> hit list \<Rightarrow> error + int" where
  "total_score_from_hits py env hits =
     (case score_loop py env (Finite 0) hits of
        Inl e \<Rightarrow> Inl e
      | Inr score \<Rightarrow>
          (case float_round score of
             Inl e \<Rightarrow> Inl e
           | Inr rounded \<Rightarrow> Inr (max (CLIP_MIN env) (min (CLIP_MAX env) rounded))))"

text \<open>
  One pass of the loop of \<open>enrich_hits\<close>, up to the \<open>PatternHit\<close>; \<open>at_date\<close> is the keyword
  argument \<open>at\<close>.
\<close>

definition enrich_hit ::
  "builtins \<Rightarrow> scoring \<Rightarrow> pydate option \<Rightarrow> (string \<rightharpoonup> pyobj) \<Rightarrow> error + PatternHit" where
  "enrich_hit py env at_date raw =
     (case extract_hit py (Raw raw) of
        Inl e \<Rightarrow> Inl e
      | Inr (fn, v) \<Rightarrow>
          (let info = lookup_bias env fn v
           in case (if v \<noteq> 0 then map_sum id Some (int_truediv \<bar>v\<bar> 100) else Inr None) of
                Inl e \<Rightarrow> Inl e
              | Inr strength \<Rightarrow>
                  (let bscore = Some (e_score info)
                   in case (case (strength, bscore) of
                              (Some st, Some b) \<Rightarrow>
                                (case float_of_int b of
                                   Inl e \<Rightarrow> Inl e
                                 | Inr fb \<Rightarrow>
                                     map_sum id Some (py_round_ndigits (float_mul fb st) 2))
                            | _ \<Rightarrow> Inr None) of
                        Inl e \<Rightarrow> Inl e
                      | Inr weighted \<Rightarrow>
                          Inr \<lparr>hit_fn = fn, hit_value = v, hit_strength = strength,
                               hit_base_score = bscore, hit_weighted_score = weighted,
                               hit_variant = e_variant info, hit_english = e_english info,
                               hit_japanese = e_japanese info,
                               hit_typical_setup = e_typical info,
                               hit_next_move = e_next_move info,
                               hit_description = e_description info,
                               hit_date = at_date\<rparr>)))"

fun enrich_hits ::
  "builtins \<Rightarrow> scoring \<Rightarrow> pydate option \<Rightarrow> (string \<rightharpoonup> pyobj) list \<Rightarrow> error + PatternHit list" where
  "enrich_hits py env at_date [] = Inr []"
| "enrich_hits py env at_date (raw # hits) =
     (case enrich_hit py env at_date raw of
        Inl e \<Rightarrow> Inl e
      | Inr p \<Rightarrow>
          (case enrich_hits py env at_date hits of
             Inl e \<Rightarrow> Inl e
           | Inr enriched \<Rightarrow> Inr (p # enriched)))"

subsection \<open>Score categories\<close>

definition categorize_score :: "int option \<Rightarrow> string option \<times> string" where
  "categorize_score score =
     (case score of
        None \<Rightarrow> (None, EM_DASH)
      | Some s \<Rightarrow>
          if s \<ge> 3 then
            (Some (''Strong'' @ FULLWIDTH_PLUS),
             UP_ARROW @ UP_ARROW @ '' Strong'' @ FULLWIDTH_PLUS @ '' ('' @ format_plus_d s @ '')'')
          else if s \<ge> 1 then
            (Some (''Mild'' @ FULLWIDTH_PLUS),
             UP_ARROW @ '' Mild'' @ FULLWIDTH_PLUS @ '' ('' @ format_plus_d s @ '')'')
          else if s \<le> - 3 then
            (Some (''Strong'' @ MINUS_SIGN),
             DOWN_ARROW @ DOWN_ARROW @ '' Strong'' @ MINUS_SIGN @ '' ('' @ format_plus_d s @ '')'')
          else if s \<le> - 1 then
            (Some (''Mild'' @ MINUS_SIGN),
             DOWN_ARROW @ '' Mild'' @ MINUS_SIGN @ '' ('' @ format_plus_d s @ '')'')
          else (Some ''Neutral'', ''Neutral (0)''))"

subsection \<open>Hits that can be scored\<close>

text \<open>
  The hits on which \<open>_extract\<close> returns: a \<open>PatternHit\<close>, or a mapping whose \<open>fn\<close> the
  builtin \<open>str\<close> converts and whose \<open>value\<close> is absent or is accepted by \<open>int\<close>.
\<close>

definition well_formed :: "builtins \<Rightarrow> hit \<Rightarrow> bool" where
  "well_formed py h =
     (case h of
        Enriched p \<Rightarrow> True
      | Raw m \<Rightarrow>
          (case m ''fn'' of Some (PyInt i) \<Rightarrow> str_of_int py i \<noteq> None | _ \<Rightarrow> True)
          \<and> (case m ''value'' of
                None \<Rightarrow> True
              | Some PyNone \<Rightarrow> False
              | Some (PyInt i) \<Rightarrow> True
              | Some (PyStr s) \<Rightarrow> int_of_str py s \<noteq> None))"

text \<open>
  The hits that \<open>_extract\<close> reads and whose value and bias score are at most \<open>2 ** m\<close> in
  magnitude.
\<close>

definition moderate :: "builtins \<Rightarrow> scoring \<Rightarrow> nat \<Rightarrow> hit \<Rightarrow> bool" where
  "moderate py env m h =
     (case extract_hit py h of
        Inl e \<Rightarrow> False
      | Inr (d, v) \<Rightarrow> \<bar>v\<bar> \<le> 2 ^ m \<and> \<bar>base_score env d v\<bar> \<le> 2 ^ m)"

subsection \<open>The composite score as the specification words it\<close>




section \<open>Pattern detection (analysis/patterns.py)\<close>

text \<open>
  pandas and TA-Lib are libraries, not code of the repository. A data frame is modelled
  by its column labels and its rows, a row by its index label and its cells; a cell or a
  label is a number, the missing value, a text or a point in time. Column labels are
  taken to be distinct strings.
\<close>

datatype cell = Number rat | NaN | Text string | Time int

type_synonym series = "cell list"

record dataframe =
  df_columns :: "string list"
  df_rows :: "(cell \<times> (string \<rightharpoonup> cell)) list"

definition df_empty :: "dataframe \<Rightarrow> bool" where
  \<comment> \<open>\<open>df.empty\<close>: one of the two axes has length 0\<close>
  "df_empty df \<longleftrightarrow> df_columns df = [] \<or> df_rows df = []"

definition df_column :: "dataframe \<Rightarrow> string \<Rightarrow> series" where
  \<comment> \<open>\<open>df[c]\<close>\<close>
  "df_column df c = map (\<lambda>(label, cells). case cells c of None \<Rightarrow> NaN | Some x \<Rightarrow> x) (df_rows df)"

definition df_index :: "dataframe \<Rightarrow> cell list" where
  "df_index df = map fst (df_rows df)"

definition cell_int :: "builtins \<Rightarrow> cell \<Rightarrow> error + int" where
  \<comment> \<open>\<open>int(x)\<close> on a cell: a number is truncated towards zero\<close>
  "cell_int py x =
     (case x of
        Number q \<Rightarrow> Inr (if q \<ge> 0 then \<lfloor>q\<rfloor> else - \<lfloor>- q\<rfloor>)
      | NaN \<Rightarrow> Inl ValueError
      | Text s \<Rightarrow> (case int_of_str py s of None \<Rightarrow> Inl ValueError | Some i \<Rightarrow> Inr i)
      | Time t \<Rightarrow> Inl TypeError)"

definition py_getitem :: "'a list \<Rightarrow> int \<Rightarrow> error + 'a" where
  \<comment> \<open>\<open>xs[i]\<close> and \<open>series.iloc[i]\<close>: a negative position counts from the end, a position
      outside the sequence raises \<open>IndexError\<close>\<close>
  "py_getitem xs i =
     (if 0 \<le> i \<and> i < int (length xs) then Inr (xs ! nat i)
      else if i < 0 \<and> - int (length xs) \<le> i then Inr (xs ! nat (int (length xs) + i))
      else Inl IndexError)"

text \<open>
  \<open>str.lower\<close> on the ASCII letters; the bytes of other characters are left as they are.
  No label with a character outside ASCII is lowered by Python to one of the column
  names looked up below.
\<close>

definition lower_char :: "char \<Rightarrow> char" where
  "lower_char c =
     (case map_of (zip ''ABCDEFGHIJKLMNOPQRSTUVWXYZ'' ''abcdefghijklmnopqrstuvwxyz'') c of
        None \<Rightarrow> c | Some d \<Rightarrow> d)"

definition str_lower :: "string \<Rightarrow> string" where
  "str_lower s = map lower_char s"

text \<open>
  The module \<open>talib\<close>: its attributes in the order of \<open>dir\<close>, each called with the four
  price columns. A call raises, returns a \<open>pd.Series\<close>, or returns something else. The
  module variable \<open>ta\<close> is \<open>None\<close> when the import failed.
\<close>

datatype det_out = Raises | IsSeries series | NotSeries

type_synonym detector = "series \<Rightarrow> series \<Rightarrow> series \<Rightarrow> series \<Rightarrow> det_out"

type_synonym talib = "(string \<times> detector) list"

definition available_pattern_functions :: "talib option \<Rightarrow> string list" where
  "available_pattern_functions ta =
     (case ta of
        None \<Rightarrow> []
      | Some t \<Rightarrow> filter (\<lambda>name. take 3 name = ''CDL'') (map fst t))"

definition raw_hit :: "string \<Rightarrow> pyobj \<Rightarrow> string \<rightharpoonup> pyobj" where
  \<comment> \<open>the dictionary \<open>{"fn": fn, "value": value}\<close>\<close>
  "raw_hit fn v = [''fn'' \<mapsto> PyStr fn, ''value'' \<mapsto> v]"

record 'ts history_entry =
  he_date :: 'ts
  he_hits :: "(string \<rightharpoonup> pyobj) list"

definition column_dict :: "dataframe \<Rightarrow> (string \<times> string) list" where
  \<comment> \<open>\<open>{c.lower(): c for c in df.columns}\<close>: a later column replaces an earlier one\<close>
  "column_dict df = fold (\<lambda>c cols. AList.update (str_lower c) c cols) (df_columns df) []"

text \<open>
  The loop over the enabled functions in \<open>_compute_pattern_series\<close>; \<open>series_map\<close> is the
  dictionary built so far.
\<close>

fun run_detectors ::
  "talib \<Rightarrow> series \<Rightarrow> series \<Rightarrow> series \<Rightarrow> series \<Rightarrow> (string \<times> series) list \<Rightarrow> string list
     \<Rightarrow> (string \<times> series) list" where
  "run_detectors t o' h l c series_map [] = series_map"
| "run_detectors t o' h l c series_map (fn # functions) =
     (case map_of t fn of
        None \<Rightarrow> run_detectors t o' h l c series_map functions
      | Some f \<Rightarrow>
          (case f o' h l c of
             IsSeries out \<Rightarrow> run_detectors t o' h l c (AList.update fn out series_map) functions
           | Raises \<Rightarrow> run_detectors t o' h l c series_map functions
           | NotSeries \<Rightarrow> run_detectors t o' h l c series_map functions))"

text \<open>
  The labels the dates are read from: the column \<open>date\<close>, else the column \<open>datetime\<close>,
  else the index.
\<close>

definition date_labels :: "dataframe \<Rightarrow> cell list" where
  "date_labels df =
     (let cols = column_dict df;
          date_col =
            (case map_of cols ''date'' of
               Some name \<Rightarrow> if name \<noteq> [] then Some name else map_of cols ''datetime''
             | None \<Rightarrow> map_of cols ''datetime'')
      in case date_col of
           Some name \<Rightarrow> if name \<noteq> [] then df_column df name else df_index df
         | None \<Rightarrow> df_index df)"

text \<open>
  \<open>to_datetime\<close> stands for \<open>pd.to_datetime\<close> followed by \<open>pd.Timestamp\<close> on each element:
  it raises or returns the points in time of the labels it is given.
\<close>

definition compute_pattern_series ::
  "builtins \<Rightarrow> talib option \<Rightarrow> (cell list \<Rightarrow> error + 'ts list) \<Rightarrow> dataframe
     \<Rightarrow> string list option \<Rightarrow> error + (string \<times> series) list \<times> 'ts list" where
  "compute_pattern_series py ta to_datetime df patterns =
     (let cols = column_dict df;
          required = map (map_of cols) [''open'', ''high'', ''low'', ''close'']
      in if list_ex (\<lambda>col. col = None) required then Inr ([], [])
         else
           (let o' = df_column df (the (required ! 0));
                h = df_column df (the (required ! 1));
                l = df_column df (the (required ! 2));
                c = df_column df (the (required ! 3));
                all_functions = available_pattern_functions ta;
                functions =
                  (case patterns of
                     Some ps \<Rightarrow>
                       filter (\<lambda>fn. str_upper py fn \<in> set (map (str_upper py) ps))
                         all_functions
                   | None \<Rightarrow> all_functions);
                series_map =
                  run_detectors (case ta of None \<Rightarrow> [] | Some t \<Rightarrow> t) o' h l c [] functions
            in case to_datetime (date_labels df) of
                 Inl e \<Rightarrow> Inl e
               | Inr dates \<Rightarrow> Inr (series_map, dates)))"

text \<open>
  The loop over \<open>series_map.items()\<close>, the same for today's hits and for each day of the
  history: a position or a cell that raises is passed over.
\<close>

fun day_hits ::
  "builtins \<Rightarrow> (string \<times> series) list \<Rightarrow> int \<Rightarrow> (string \<rightharpoonup> pyobj) list" where
  "day_hits py [] idx = []"
| "day_hits py ((fn, series) # items) idx =
     (case py_getitem series idx of
        Inl e \<Rightarrow> day_hits py items idx
      | Inr x \<Rightarrow>
          (case cell_int py x of
             Inl e \<Rightarrow> day_hits py items idx
           | Inr v \<Rightarrow>
               if v \<noteq> 0 then raw_hit fn (PyInt v) # day_hits py items idx
               else day_hits py items idx))"

text \<open>The loop over \<open>range(start, last_index + 1)\<close>.\<close>

fun history_loop ::
  "builtins \<Rightarrow> (string \<times> series) list \<Rightarrow> 'ts list \<Rightarrow> int list
     \<Rightarrow> error + 'ts history_entry list" where
  "history_loop py series_map dates [] = Inr []"
| "history_loop py series_map dates (idx # idxs) =
     (let hits = day_hits py series_map idx
      in if hits \<noteq> [] then
           (case py_getitem dates idx of
              Inl e \<Rightarrow> Inl e
            | Inr d \<Rightarrow>
                (case history_loop py series_map dates idxs of
                   Inl e \<Rightarrow> Inl e
                 | Inr history \<Rightarrow> Inr (\<lparr>he_date = d, he_hits = hits\<rparr> # history)))
         else history_loop py series_map dates idxs)"

definition detect_with_history ::
  "builtins \<Rightarrow> talib option \<Rightarrow> (cell list \<Rightarrow> error + 'ts list) \<Rightarrow> dataframe \<Rightarrow> int
     \<Rightarrow> string list option \<Rightarrow> error + (string \<rightharpoonup> pyobj) list \<times> 'ts history_entry list" where
  "detect_with_history py ta to_datetime df lookback patterns =
     (if ta = None \<or> df_empty df then Inr ([], [])
      else
        (case compute_pattern_series py ta to_datetime df patterns of
           Inl e \<Rightarrow> Inl e
         | Inr (series_map, dates) \<Rightarrow>
             if series_map = [] then Inr ([], [])
             else
               (let last_index = int (length dates) - 1;
                    hits_today = day_hits py series_map last_index;
                    start = max 0 (last_index - lookback + 1)
                in case history_loop py series_map dates [start..last_index] of
                     Inl e \<Rightarrow> Inl e
                   | Inr history \<Rightarrow> Inr (hits_today, history))))"

section \<open>Sample data\<close>

text \<open>
  An instance of the conversions for the examples: \<open>int\<close> on the numerals of an optional
  sign and at most 4300 ASCII digits, \<open>str\<close> on the integers of at most 4300 digits, and
  \<open>str.upper\<close> on ASCII text. The examples convert no other text.
\<close>

definition digit_val :: "char \<Rightarrow> nat option" where
  "digit_val c =
     map_of
       [(CHR ''0'', 0), (CHR ''1'', 1), (CHR ''2'', 2), (CHR ''3'', 3), (CHR ''4'', 4),
        (CHR ''5'', 5), (CHR ''6'', 6), (CHR ''7'', 7), (CHR ''8'', 8), (CHR ''9'', 9)] c"

fun parse_digits :: "nat \<Rightarrow> string \<Rightarrow> nat option" where
  "parse_digits acc [] = Some acc"
| "parse_digits acc (c # cs) =
     (case digit_val c of None \<Rightarrow> None | Some d \<Rightarrow> parse_digits (10 * acc + d) cs)"

definition ascii_numeral :: "string \<Rightarrow> int option" where
  "ascii_numeral s =
     (case s of
        [] \<Rightarrow> None
      | c # cs \<Rightarrow>
          if c = CHR ''-'' then
            (if cs = [] \<or> 4300 < length cs then None
             else map_option (\<lambda>n. - int n) (parse_digits 0 cs))
          else if c = CHR ''+'' then
            (if cs = [] \<or> 4300 < length cs then None else map_option int (parse_digits 0 cs))
          else if 4300 < length s then None
          else map_option int (parse_digits 0 s))"

definition ascii_upper :: "string \<Rightarrow> string" where
  "ascii_upper s =
     map (\<lambda>c. case map_of (zip ''abcdefghijklmnopqrstuvwxyz'' ''ABCDEFGHIJKLMNOPQRSTUVWXYZ'') c of
                None \<Rightarrow> c | Some d \<Rightarrow> d) s"

definition sample_py :: builtins where
  "sample_py =
     \<lparr>int_of_str = ascii_numeral,
      str_of_int = (\<lambda>i. if 4300 < length (digits (nat \<bar>i\<bar>)) then None else Some (str_int i)),
      str_upper = ascii_upper\<rparr>"

definition entry_with_score :: "int \<Rightarrow> bias_entry" where
  "entry_with_score s = empty_entry\<lparr>e_score := s\<rparr>"

definition sample_bias :: "string \<rightharpoonup> (string \<times> bias_entry) list" where
  "sample_bias =
     [''CDLENGULFING'' \<mapsto> [(''bullish'', entry_with_score 3), (''bearish'', entry_with_score (- 3))],
      ''CDLKICKINGBYLENGTH'' \<mapsto> [(''bullish'', entry_with_score 4)],
      ''CDLHARAMI'' \<mapsto> [(''neutral'', entry_with_score 2)]]"

text \<open>A price series of three days and a backend of four attributes.\<close>

fun sample_to_datetime :: "cell list \<Rightarrow> error + int list" where
  "sample_to_datetime [] = Inr []"
| "sample_to_datetime (Time t # xs) =
     (case sample_to_datetime xs of Inl e \<Rightarrow> Inl e | Inr ts \<Rightarrow> Inr (t # ts))"
| "sample_to_datetime (x # xs) = Inl ValueError"

definition bar :: "int \<Rightarrow> rat \<Rightarrow> rat \<Rightarrow> rat \<Rightarrow> rat \<Rightarrow> cell \<times> (string \<rightharpoonup> cell)" where
  "bar d o' h l c =
     (Number (of_int d),
      [''Date'' \<mapsto> Time d, ''Open'' \<mapsto> Number o', ''High'' \<mapsto> Number h,
       ''Low'' \<mapsto> Number l, ''Close'' \<mapsto> Number c])"

definition sample_df :: dataframe where
  "sample_df =
     \<lparr>df_columns = [''Date'', ''Open'', ''High'', ''Low'', ''Close''],
      df_rows = [bar 1 100 110 90 105, bar 2 105 120 95 115, bar 3 115 130 100 125]\<rparr>"

definition sample_ta :: talib where
  "sample_ta =
     [(''ATR'', \<lambda>o' h l c. IsSeries h),
      (''CDLDOJI'', \<lambda>o' h l c. IsSeries [Number 0, Number 100, Number (- 100)]),
      (''CDLHAMMER'', \<lambda>o' h l c. Raises),
      (''CDLMARUBOZU'', \<lambda>o' h l c. IsSeries [Number 0, Number 0, Number 100])]"


definition scenario_A :: "hit list" where
  \<comment> \<open>the hits of \<open>test_total_score_from_hits_basic\<close>\<close>
  "scenario_A =
     [Raw (raw_hit ''CDLENGULFING'' (PyInt 100)),
      Raw (raw_hit ''CDLENGULFING'' (PyInt (- 100))),
      Raw (raw_hit ''CDLKICKINGBYLENGTH'' (PyInt 200))]"

section \<open>Properties of the floating-point model\<close>

subsection \<open>Rounding to binary64\<close>

text \<open>
  The exponent brackets the number, the rounded value keeps bounds that are powers of two,
  and the rounding is determined by the exponent and the nearest multiple of the unit.
\<close>

lemma two_powi_nat: "0 \<le> k \<Longrightarrow> (2::rat) powi k = 2 ^ nat k"
  by (simp add: power_int_def)

lemma expo_le:
  assumes "q \<noteq> 0"
  shows "2 powi (expo q) \<le> \<bar>q\<bar>"
proof -
  obtain a b where ab: "quotient_of \<bar>q\<bar> = (a, b)"
    by (cases "quotient_of \<bar>q\<bar>")
  have b: "0 < b"
    using ab by (rule quotient_of_denom_pos)
  have q: "\<bar>q\<bar> = of_int a / of_int b"
    using ab by (rule quotient_of_div)
  have a: "0 < a"
  proof (rule ccontr)
    assume "\<not> 0 < a"
    then have "of_int a / (of_int b :: rat) \<le> 0"
      using b by (simp add: divide_le_0_iff)
    with q assms show False by simp
  qed
  define d where "d = bitlen a - bitlen b"
  show ?thesis
  proof (cases "2 powi d \<le> \<bar>q\<bar>")
    case True
    then show ?thesis
      by (simp add: expo_def ab d_def)
  next
    case False
    then have e: "expo q = d - 1"
      by (simp add: expo_def ab d_def)
    have la: "1 \<le> bitlen a" and lb: "1 \<le> bitlen b"
      using a b by (simp_all add: bitlen_alt_def)
    have "(2::int) ^ nat (bitlen a - 1) \<le> a" and "b < (2::int) ^ nat (bitlen b)"
      using bitlen_bounds [OF a] bitlen_bounds [OF b] by simp_all
    then have lo: "(2::rat) ^ nat (bitlen a - 1) \<le> of_int a"
      and hi: "of_int b \<le> (2::rat) ^ nat (bitlen b)"
      by (metis of_int_le_iff of_int_numeral of_int_power,
          metis of_int_le_iff of_int_numeral of_int_power less_imp_le)
    have dd: "d - 1 = (bitlen a - 1) - bitlen b"
      by (simp add: d_def)
    have "(2::rat) powi ((bitlen a - 1) - bitlen b)
        = 2 powi (bitlen a - 1) / 2 powi (bitlen b)"
      by (rule power_int_diff) simp
    then have "2 powi (d - 1) = (2::rat) powi (bitlen a - 1) / 2 powi (bitlen b)"
      by (simp only: dd)
    also have "\<dots> = 2 ^ nat (bitlen a - 1) / 2 ^ nat (bitlen b)"
      using la lb by (simp add: two_powi_nat)
    also have "\<dots> \<le> of_int a / of_int b"
      using lo hi a b by (intro frac_le) auto
    finally show ?thesis
      by (simp add: e q)
  qed
qed

lemma round_half_even_le:
  assumes "x \<le> of_int n"
  shows "round_half_even x \<le> n"
proof -
  show ?thesis
  proof (cases "x - of_int \<lfloor>x\<rfloor> = 1 / 2")
    case True
    have "x \<noteq> of_int n"
    proof
      assume "x = of_int n"
      with True show False by simp
    qed
    with assms have "x < of_int n" by simp
    then have "\<lfloor>x\<rfloor> < n"
      by (simp add: floor_less_iff)
    with True show ?thesis
      by (simp add: round_half_even_def)
  next
    case False
    have "\<lfloor>x + 1 / 2\<rfloor> \<le> n"
    proof (rule ccontr)
      assume "\<not> \<lfloor>x + 1 / 2\<rfloor> \<le> n"
      then have "n + 1 \<le> \<lfloor>x + 1 / 2\<rfloor>" by simp
      then have "of_int (n + 1) \<le> x + 1 / 2"
        by (simp only: le_floor_iff)
      with assms show False by simp
    qed
    with False show ?thesis
      by (simp add: round_half_even_def)
  qed
qed

lemma round_half_even_ge:
  assumes "of_int n \<le> x"
  shows "n \<le> round_half_even x"
proof -
  have f: "n \<le> \<lfloor>x\<rfloor>"
    using assms by (simp add: le_floor_iff)
  have "\<lfloor>x\<rfloor> \<le> \<lfloor>x + 1 / 2\<rfloor>"
    by (intro floor_mono) simp
  with f show ?thesis
    by (simp add: round_half_even_def)
qed

lemma round_half_even_abs_le:
  assumes "\<bar>x\<bar> \<le> of_int n"
  shows "\<bar>round_half_even x\<bar> \<le> n"
proof -
  have "x \<le> of_int n" "of_int (- n) \<le> x"
    using assms by (simp_all add: abs_le_iff)
  then have "round_half_even x \<le> n" "- n \<le> round_half_even x"
    by (simp_all add: round_half_even_le round_half_even_ge)
  then show ?thesis by simp
qed

lemma fl_bounded:
  assumes "\<bar>q\<bar> \<le> 2 ^ k" and "k \<le> 1023"
  shows "\<exists>r. fl q = Finite r \<and> \<bar>r\<bar> \<le> 2 ^ k"
proof (cases "q = 0")
  case True
  then show ?thesis by (simp add: fl_def)
next
  case False
  define E where "E = max (expo q) (- 1022)"
  define u :: rat where "u = 2 powi (E - 52)"
  define r where "r = of_int (round_half_even (q / u)) * u"
  have u: "0 < u" by (simp add: u_def)
  have "2 powi (expo q) \<le> (2::rat) powi (int k)"
    using expo_le [OF False] assms(1) by simp
  then have "expo q \<le> int k"
    by (rule power_int_le_imp_le_exp [rotated]) simp_all
  then have E: "E \<le> int k"
    by (simp add: E_def)
  define N :: int where "N = 2 ^ nat (int k - E + 52)"
  have "of_int N * u = (2::rat) powi (int k - E + 52) * 2 powi (E - 52)"
    using E by (simp add: N_def u_def two_powi_nat)
  also have "\<dots> = 2 powi (int k)"
    by (simp add: power_int_add [symmetric])
  finally have Nu: "of_int N * u = 2 ^ k" by simp
  have "\<bar>q / u\<bar> \<le> of_int N"
    using assms(1) u Nu by (simp add: abs_divide field_simps pos_divide_le_eq mult.commute)
  then have "\<bar>round_half_even (q / u)\<bar> \<le> N"
    by (rule round_half_even_abs_le)
  then have "\<bar>of_int (round_half_even (q / u)) :: rat\<bar> \<le> of_int N"
    by (metis of_int_abs of_int_le_iff)
  then have "\<bar>r\<bar> \<le> of_int N * u"
    using u by (simp add: r_def abs_mult mult_right_mono)
  then have rk: "\<bar>r\<bar> \<le> 2 ^ k"
    using Nu by simp
  have "(2::rat) ^ k < 2 ^ 1024"
    using assms(2) by (intro power_strict_increasing) auto
  with rk have "\<not> 2 ^ 1024 \<le> \<bar>r\<bar>" by linarith
  then have "fl q = Finite r"
    using False by (simp add: fl_def Let_def r_def u_def E_def)
  with rk show ?thesis by blast
qed

lemma expo_gt:
  assumes "q \<noteq> 0"
  shows "\<bar>q\<bar> < 2 powi (expo q + 1)"
proof -
  obtain a b where ab: "quotient_of \<bar>q\<bar> = (a, b)"
    by (cases "quotient_of \<bar>q\<bar>")
  have b: "0 < b"
    using ab by (rule quotient_of_denom_pos)
  have q: "\<bar>q\<bar> = of_int a / of_int b"
    using ab by (rule quotient_of_div)
  have a: "0 < a"
  proof (rule ccontr)
    assume "\<not> 0 < a"
    then have "of_int a / (of_int b :: rat) \<le> 0"
      using b by (simp add: divide_le_0_iff)
    with q assms show False by simp
  qed
  define d where "d = bitlen a - bitlen b"
  show ?thesis
  proof (cases "2 powi d \<le> \<bar>q\<bar>")
    case False
    then show ?thesis
      by (simp add: expo_def ab d_def)
  next
    case True
    then have e: "expo q = d"
      by (simp add: expo_def ab d_def)
    have la: "1 \<le> bitlen a" and lb: "1 \<le> bitlen b"
      using a b by (simp_all add: bitlen_alt_def)
    have "a < (2::int) ^ nat (bitlen a)" and "(2::int) ^ nat (bitlen b - 1) \<le> b"
      using bitlen_bounds [OF a] bitlen_bounds [OF b] by simp_all
    then have hi: "of_int a < (2::rat) ^ nat (bitlen a)"
      and lo: "(2::rat) ^ nat (bitlen b - 1) \<le> of_int b"
      by (metis of_int_less_iff of_int_numeral of_int_power,
          metis of_int_le_iff of_int_numeral of_int_power)
    have dd: "d + 1 = bitlen a - (bitlen b - 1)"
      by (simp add: d_def)
    have "of_int a / of_int b < (2::rat) ^ nat (bitlen a) / 2 ^ nat (bitlen b - 1)"
      using lo hi a b by (intro frac_less) auto
    also have "\<dots> = 2 powi (bitlen a) / 2 powi (bitlen b - 1)"
      using la lb by (simp add: two_powi_nat)
    also have "\<dots> = 2 powi (bitlen a - (bitlen b - 1))"
      by (rule power_int_diff [symmetric]) simp
    finally show ?thesis
      by (simp only: e q dd)
  qed
qed

lemma two_powi_lessD: "(2::rat) powi a < 2 powi b \<Longrightarrow> a < b"
proof (rule ccontr)
  assume less: "(2::rat) powi a < 2 powi b" and "\<not> a < b"
  then have "b \<le> a" by simp
  then have "(2::rat) powi b \<le> 2 powi a"
    by (rule power_int_increasing) simp
  with less show False by simp
qed

lemma expo_unique:
  assumes "2 powi e \<le> \<bar>q\<bar>" and "\<bar>q\<bar> < 2 powi (e + 1)"
  shows "expo q = e"
proof -
  have pos: "(0::rat) < 2 powi e"
    by simp
  have "0 < \<bar>q\<bar>"
    using assms(1) pos by linarith
  then have q: "q \<noteq> 0"
    by simp
  have "(2::rat) powi (expo q) < 2 powi (e + 1)"
    using expo_le [OF q] assms(2) by linarith
  then have "expo q < e + 1"
    by (rule two_powi_lessD)
  moreover have "(2::rat) powi e < 2 powi (expo q + 1)"
    using expo_gt [OF q] assms(1) by linarith
  then have "e < expo q + 1"
    by (rule two_powi_lessD)
  ultimately show ?thesis by simp
qed

lemma round_half_even_of_int: "round_half_even (of_int n) = n"
proof -
  have "\<lfloor>(1::rat) / 2\<rfloor> = 0"
    by (rule floor_unique) auto
  then show ?thesis
    by (simp add: round_half_even_def)
qed

lemma fl_0: "fl 0 = Finite 0"
  by (simp add: fl_def)

lemma fl_unique:
  assumes "2 powi e \<le> \<bar>q\<bar>" and "\<bar>q\<bar> < 2 powi (e + 1)"
    and "u = 2 powi (max e (- 1022) - 52)"
    and "round_half_even (q / u) = m"
    and "\<bar>of_int m * u\<bar> < 2 ^ 1024"
  shows "fl q = Finite (of_int m * u)"
proof -
  have pos: "(0::rat) < 2 powi e"
    by simp
  have "0 < \<bar>q\<bar>"
    using assms(1) pos by linarith
  then have q: "q \<noteq> 0"
    by simp
  have "expo q = e"
    using assms(1,2) by (rule expo_unique)
  then show ?thesis
    using q assms(3,4,5) by (simp add: fl_def Let_def)
qed

lemma fl_int:
  assumes "\<bar>n\<bar> < 2 ^ 53"
  shows "fl (of_int n) = Finite (of_int n)"
proof (cases "n = 0")
  case True
  then show ?thesis by (simp add: fl_0)
next
  case False
  define q :: rat where "q = of_int n"
  have q: "q \<noteq> 0" using False by (simp add: q_def)
  define E where "E = max (expo q) (- 1022)"
  define u :: rat where "u = 2 powi (E - 52)"
  have "\<bar>q\<bar> < 2 ^ 53"
    using assms unfolding q_def by (metis of_int_abs of_int_less_iff of_int_numeral of_int_power)
  then have "(2::rat) powi (expo q) < 2 powi 53"
    using expo_le [OF q] by simp
  then have "expo q < 53"
    by (rule two_powi_lessD)
  then have E: "E \<le> 52"
    by (simp add: E_def)
  have "q / u = q * 2 powi (52 - E)"
    by (simp add: u_def power_int_diff field_simps)
  also have "\<dots> = of_int (n * 2 ^ nat (52 - E))"
    using E by (simp add: q_def two_powi_nat)
  finally have "round_half_even (q / u) = n * 2 ^ nat (52 - E)"
    by (simp only: round_half_even_of_int)
  then have "of_int (round_half_even (q / u)) * u = q * (2 powi (52 - E) * 2 powi (E - 52))"
    using E by (simp add: q_def u_def two_powi_nat)
  also have "2 powi (52 - E) * 2 powi (E - 52) = (1::rat)"
    by (simp add: power_int_add [symmetric])
  finally have r: "of_int (round_half_even (q / u)) * u = q"
    by simp
  have "\<bar>q\<bar> < 2 ^ 1024"
    using \<open>\<bar>q\<bar> < 2 ^ 53\<close> by (rule less_trans) simp
  then show ?thesis
    using q r unfolding q_def [symmetric]
    by (simp add: fl_def Let_def u_def E_def)
qed

lemma fl_overflow:
  assumes "2 ^ 1024 \<le> \<bar>q\<bar>"
  shows "fl q = (if 0 < q then PInf else NInf)"
proof -
  have q: "q \<noteq> 0"
    using assms by auto
  define E where "E = max (expo q) (- 1022)"
  define u :: rat where "u = 2 powi (E - 52)"
  define r where "r = of_int (round_half_even (q / u)) * u"
  have u: "0 < u" by (simp add: u_def)
  have "\<exists>k. E - 52 \<le> k \<and> 1024 \<le> k \<and> 2 powi k \<le> \<bar>q\<bar>"
  proof (cases "E \<le> 1076")
    case True
    with assms show ?thesis
      by (intro exI [of _ 1024]) simp
  next
    case False
    then have "E = expo q" by (simp add: E_def)
    with False expo_le [OF q] show ?thesis
      by (intro exI [of _ E]) simp
  qed
  then obtain k where k: "E - 52 \<le> k" "1024 \<le> k" "2 powi k \<le> \<bar>q\<bar>"
    by blast
  define N :: int where "N = 2 ^ nat (k - (E - 52))"
  have "of_int N * u = (2::rat) powi (k - (E - 52)) * 2 powi (E - 52)"
    using k(1) by (simp add: N_def u_def two_powi_nat)
  also have "\<dots> = 2 powi k"
    by (simp add: power_int_add [symmetric])
  finally have Nu: "of_int N * u = 2 powi k" .
  have N0: "0 \<le> N" by (simp add: N_def)
  have "of_int N \<le> \<bar>q / u\<bar>"
    using k(3) u Nu by (simp add: abs_divide pos_le_divide_eq)
  then have "of_int N \<le> q / u \<or> q / u \<le> of_int (- N)"
    by (auto simp: abs_if split: if_splits)
  then have "N \<le> round_half_even (q / u) \<or> round_half_even (q / u) \<le> - N"
    using round_half_even_ge [of N "q / u"] round_half_even_le [of "q / u" "- N"] by blast
  then have "N \<le> \<bar>round_half_even (q / u)\<bar>"
    by auto
  then have "of_int N \<le> \<bar>of_int (round_half_even (q / u)) :: rat\<bar>"
    by (metis of_int_abs of_int_le_iff)
  then have "of_int N * u \<le> \<bar>r\<bar>"
    using u by (simp add: r_def abs_mult mult_right_mono)
  moreover have "(2::rat) powi 1024 \<le> 2 powi k"
    using k(2) by (intro power_int_increasing) simp_all
  ultimately have "2 ^ 1024 \<le> \<bar>r\<bar>"
    using Nu by simp
  then show ?thesis
    using q by (simp add: fl_def Let_def r_def u_def E_def)
qed

lemma round_half_even_nearest:
  assumes "of_int m - 1 / 2 < x" and "x < of_int m + 1 / 2"
  shows "round_half_even x = m"
proof -
  have fl: "\<lfloor>x + 1 / 2\<rfloor> = m"
    using assms by (intro floor_unique) auto
  have "x - of_int \<lfloor>x\<rfloor> \<noteq> 1 / 2"
  proof
    assume "x - of_int \<lfloor>x\<rfloor> = 1 / 2"
    then have "x + 1 / 2 = of_int (\<lfloor>x\<rfloor> + 1)"
      by simp
    then have "\<lfloor>x + 1 / 2\<rfloor> = \<lfloor>x\<rfloor> + 1"
      by (metis floor_of_int)
    with fl have "x = of_int m - 1 / 2"
      using \<open>x + 1 / 2 = of_int (\<lfloor>x\<rfloor> + 1)\<close> by simp
    with assms(1) show False by simp
  qed
  then show ?thesis
    using fl by (simp add: round_half_even_def)
qed

lemma round_half_even_tie:
  "round_half_even (of_int n + 1 / 2) = (if even n then n else n + 1)"
proof -
  have "\<lfloor>of_int n + (1 / 2 :: rat)\<rfloor> = n"
    by (rule floor_unique) auto
  then show ?thesis
    by (simp add: round_half_even_def)
qed

lemma round_half_even_minus: "round_half_even (- x) = - round_half_even x"
proof (cases "x - of_int \<lfloor>x\<rfloor> = 1 / 2")
  case True
  define n where "n = \<lfloor>x\<rfloor>"
  have x: "x = of_int n + 1 / 2"
    using True by (simp add: n_def)
  have "- x = of_int (- n - 1) + 1 / 2"
    using x by simp
  then have "round_half_even (- x) = (if even (- n - 1) then - n - 1 else - n - 1 + 1)"
    by (simp only: round_half_even_tie)
  moreover have "round_half_even x = (if even n then n else n + 1)"
    unfolding x by (rule round_half_even_tie)
  ultimately show ?thesis by auto
next
  case False
  define m where "m = \<lfloor>x + 1 / 2\<rfloor>"
  have lo: "of_int m \<le> x + 1 / 2" and hi: "x + 1 / 2 < of_int m + 1"
    unfolding m_def by linarith+
  have "x + 1 / 2 \<noteq> of_int m"
  proof
    assume eq: "x + 1 / 2 = of_int m"
    then have x: "x = of_int (m - 1) + 1 / 2"
      by simp
    have "\<lfloor>x\<rfloor> = m - 1"
      unfolding x by (rule floor_unique) auto
    with x False show False by simp
  qed
  with lo hi have "of_int m - 1 / 2 < x" "x < of_int m + 1 / 2"
    by auto
  then have "round_half_even x = m" "round_half_even (- x) = - m"
    by (auto intro!: round_half_even_nearest)
  then show ?thesis by simp
qed

lemma expo_minus: "expo (- q) = expo q"
  by (simp add: expo_def)

lemma fl_minus: "fl q = Finite r \<Longrightarrow> fl (- q) = Finite (- r)"
  by (cases "q = 0")
    (auto simp: fl_def Let_def expo_minus round_half_even_minus split: if_splits)

lemma fl_finite_lt:
  assumes "fl q = Finite r"
  shows "\<bar>q\<bar> < 2 ^ 1024"
proof (rule ccontr)
  assume "\<not> \<bar>q\<bar> < 2 ^ 1024"
  then have "fl q = (if 0 < q then PInf else NInf)"
    by (intro fl_overflow) simp
  with assms show False by (simp split: if_splits)
qed

text \<open>A binary64 value above \<open>2 ** 53\<close> is an integer, and rounding leaves it finite.\<close>

lemma fl_large:
  assumes "fl q = Finite x" and "2 ^ 53 < \<bar>x\<bar>"
  shows "\<exists>N. x = of_int N" and "\<exists>r. fl x = Finite r"
proof -
  have q0: "q \<noteq> 0"
    using assms by (auto simp: fl_0)
  define e where "e = expo q"
  have e: "2 powi e \<le> \<bar>q\<bar>" "\<bar>q\<bar> < 2 powi (e + 1)"
    unfolding e_def using q0 by (rule expo_le, rule expo_gt)
  have big: "2 ^ 52 < \<bar>q\<bar>"
  proof (rule ccontr)
    assume "\<not> 2 ^ 52 < \<bar>q\<bar>"
    then have "\<bar>q\<bar> \<le> 2 ^ 52" by simp
    moreover have "(52::nat) \<le> 1023" by simp
    ultimately obtain r where "fl q = Finite r" "\<bar>r\<bar> \<le> 2 ^ 52"
      using fl_bounded by blast
    with assms show False by simp
  qed
  have "(2::rat) powi 52 < 2 powi (e + 1)"
    using big e(2) by simp
  then have e52: "52 \<le> e"
    using two_powi_lessD [of 52 "e + 1"] by simp
  define u :: rat where "u = 2 powi (max e (- 1022) - 52)"
  define m where "m = round_half_even (q / u)"
  have x: "x = of_int m * u" and lt: "\<bar>x\<bar> < 2 ^ 1024"
    using assms(1) q0 by (auto simp: fl_def Let_def e_def u_def m_def split: if_splits)
  have u: "u = 2 ^ nat (e - 52)"
    using e52 by (simp add: u_def two_powi_nat)
  then have "x = of_int (m * 2 ^ nat (e - 52))"
    using x by simp
  then show "\<exists>N. x = of_int N" ..
  show "\<exists>r. fl x = Finite r"
  proof (cases "\<bar>x\<bar> \<le> 2 ^ 1023")
    case True
    moreover have "(1023::nat) \<le> 1023" by simp
    ultimately show ?thesis
      using fl_bounded by blast
  next
    case False
    have "\<not> e + 1 \<le> 1023"
    proof
      assume "e + 1 \<le> 1023"
      then have "(2::rat) powi (e + 1) \<le> 2 powi 1023"
        by (intro power_int_increasing) simp_all
      with e(2) have "\<bar>q\<bar> \<le> 2 ^ 1023" by simp
      moreover have "(1023::nat) \<le> 1023" by simp
      ultimately obtain r where "fl q = Finite r" "\<bar>r\<bar> \<le> 2 ^ 1023"
        using fl_bounded by blast
      with assms(1) False show False by simp
    qed
    moreover have "e < 1024"
    proof -
      have "\<bar>q\<bar> < 2 ^ 1024"
        using assms(1) by (rule fl_finite_lt)
      with e(1) have "(2::rat) powi e < 2 powi 1024" by simp
      then show ?thesis by (rule two_powi_lessD)
    qed
    ultimately have e1023: "e = 1023" by simp
    have u971: "u = 2 powi (max 1023 (- 1022) - 52)"
      by (simp add: u_def e1023)
    have upos: "0 < u"
      by (simp add: u_def)
    have "x / u = of_int m"
      using upos by (simp add: x)
    then have rhe: "round_half_even (x / u) = m"
      by (simp add: round_half_even_of_int)
    have "2 powi 1023 \<le> \<bar>x\<bar>" "\<bar>x\<bar> < 2 powi (1023 + 1)"
      using False lt by simp_all
    from fl_unique [OF this u971 rhe] lt x show ?thesis
      by auto
  qed
qed

subsection \<open>Operations\<close>

lemma float_of_int_cases:
  "float_of_int i = Inl OverflowError \<or> (\<exists>r. float_of_int i = Inr (Finite r))"
  by (simp add: float_of_int_def split: pyfloat.splits)

lemma float_of_int_bounded:
  assumes "\<bar>i\<bar> \<le> 2 ^ k" and "k \<le> 1023"
  shows "\<exists>r. float_of_int i = Inr (Finite r) \<and> \<bar>r\<bar> \<le> 2 ^ k"
proof -
  have "\<bar>of_int i :: rat\<bar> \<le> 2 ^ k"
    using assms(1) by (metis of_int_abs of_int_le_iff of_int_numeral of_int_power)
  then obtain r where "fl (of_int i) = Finite r" "\<bar>r\<bar> \<le> 2 ^ k"
    using fl_bounded assms(2) by blast
  then show ?thesis
    by (simp add: float_of_int_def)
qed

lemma float_of_int_small: "\<bar>n\<bar> < 2 ^ 53 \<Longrightarrow> float_of_int n = Inr (Finite (of_int n))"
  by (simp add: float_of_int_def fl_int)


lemma float_of_int_minus:
  assumes "float_of_int n = Inr f"
  shows "\<exists>f'. float_of_int (- n) = Inr f'"
proof -
  obtain r where "fl (of_int n) = Finite r"
    using assms by (auto simp: float_of_int_def split: pyfloat.splits)
  then have "fl (- of_int n) = Finite (- r)"
    by (rule fl_minus)
  then show ?thesis
    by (simp add: float_of_int_def)
qed

lemma strength_bounded:
  assumes "\<bar>r\<bar> \<le> 2 ^ k" and "k \<le> 1023"
  shows "\<exists>s. float_truediv (Finite r) (Finite 100) = Inr (Finite s) \<and> \<bar>s\<bar> \<le> 2 ^ k"
proof -
  have "\<bar>r / 100\<bar> \<le> \<bar>r\<bar>"
    by (simp add: abs_divide divide_le_eq)
  with assms(1) have "\<bar>r / 100\<bar> \<le> 2 ^ k" by linarith
  then obtain s where "fl (r / 100) = Finite s" "\<bar>s\<bar> \<le> 2 ^ k"
    using fl_bounded assms(2) by blast
  then show ?thesis
    by (simp add: float_truediv_def)
qed

lemma float_mul_bounded:
  assumes "\<bar>x\<bar> \<le> 2 ^ a" and "\<bar>y\<bar> \<le> 2 ^ b" and "a + b \<le> 1023"
  shows "\<exists>z. float_mul (Finite x) (Finite y) = Finite z \<and> \<bar>z\<bar> \<le> 2 ^ (a + b)"
proof -
  have "\<bar>x\<bar> * \<bar>y\<bar> \<le> 2 ^ a * 2 ^ b"
    using assms(1,2) by (simp add: mult_mono)
  then have "\<bar>x * y\<bar> \<le> 2 ^ a * 2 ^ b"
    by (simp add: abs_mult)
  then have "\<bar>x * y\<bar> \<le> 2 ^ (a + b)"
    by (simp add: power_add)
  then obtain z where "fl (x * y) = Finite z" "\<bar>z\<bar> \<le> 2 ^ (a + b)"
    using fl_bounded assms(3) by blast
  then show ?thesis
    by (simp add: float_mul_def)
qed

lemma float_add_bounded:
  assumes "\<bar>x\<bar> \<le> 2 ^ k" and "\<bar>y\<bar> \<le> 2 ^ k" and "k < 1023"
  shows "\<exists>z. float_add (Finite x) (Finite y) = Finite z \<and> \<bar>z\<bar> \<le> 2 ^ Suc k"
proof -
  have "\<bar>x + y\<bar> \<le> \<bar>x\<bar> + \<bar>y\<bar>"
    by (rule abs_triangle_ineq)
  with assms(1,2) have "\<bar>x + y\<bar> \<le> 2 ^ Suc k"
    by simp
  moreover have "Suc k \<le> 1023"
    using assms(3) by simp
  ultimately obtain z where "fl (x + y) = Finite z" "\<bar>z\<bar> \<le> 2 ^ Suc k"
    using fl_bounded by blast
  then show ?thesis
    by (simp add: float_add_def)
qed

text \<open>\<open>round(x, 2)\<close> does not overflow on a binary64 value.\<close>

lemma round2_finite:
  assumes "fl q = Finite x"
  shows "\<exists>r. py_round_ndigits (Finite x) 2 = Inr (Finite r)"
proof -
  have "\<exists>w. fl (of_int (round_half_even (x * 10 ^ 2)) / 10 ^ 2) = Finite w"
  proof (cases "\<bar>x\<bar> \<le> 2 ^ 53")
    case True
    define N :: int where "N = 100 * 2 ^ 53"
    have "\<bar>x * 10 ^ 2\<bar> \<le> of_int N"
      using True by (simp add: N_def abs_mult)
    then have "\<bar>round_half_even (x * 10 ^ 2)\<bar> \<le> N"
      by (rule round_half_even_abs_le)
    then have "\<bar>of_int (round_half_even (x * 10 ^ 2)) :: rat\<bar> \<le> of_int N"
      by (metis of_int_abs of_int_le_iff)
    then have "\<bar>of_int (round_half_even (x * 10 ^ 2)) / 10 ^ 2 :: rat\<bar> \<le> 2 ^ 53"
      by (simp add: N_def abs_divide divide_le_eq)
    moreover have "(53::nat) \<le> 1023" by simp
    ultimately show ?thesis
      using fl_bounded by blast
  next
    case False
    then have big: "2 ^ 53 < \<bar>x\<bar>" by simp
    obtain N where N: "x = of_int N"
      using fl_large(1) [OF assms big] by blast
    have "x * 10 ^ 2 = of_int (N * 100)"
      by (simp add: N)
    then have "round_half_even (x * 10 ^ 2) = N * 100"
      by (simp only: round_half_even_of_int)
    then have "of_int (round_half_even (x * 10 ^ 2)) / 10 ^ 2 = x"
      by (simp add: N)
    then show ?thesis
      using fl_large(2) [OF assms big] by simp
  qed
  then show ?thesis
    by (auto simp: py_round_ndigits_def)
qed

subsection \<open>Rounding to an integer\<close>

text \<open>\<open>round\<close> as CPython computes it is rounding to the nearest integer, ties to even.\<close>

lemma c_round_tie: "x = of_int n + 1 / 2 \<Longrightarrow> c_round x = (if n \<ge> 0 then n + 1 else n)"
  unfolding c_round_def by (auto; linarith)

lemma c_round_no_tie:
  assumes "x - of_int \<lfloor>x\<rfloor> \<noteq> 1 / 2"
  shows "c_round x = \<lfloor>x + 1 / 2\<rfloor>"
proof (cases "x \<ge> 0")
  case True
  then show ?thesis by (simp add: c_round_def)
next
  case neg: False
  define n where "n = \<lfloor>x\<rfloor>"
  have b: "of_int n \<le> x" "x < of_int n + 1"
    unfolding n_def by linarith+
  show ?thesis
  proof (cases "x - of_int n < 1 / 2")
    case True
    have "\<lfloor>x + 1 / 2\<rfloor> = n"
      using b True by (intro floor_unique) auto
    moreover have "\<lfloor>- x + 1 / 2\<rfloor> = - n"
      using b True by (intro floor_unique) auto
    ultimately show ?thesis
      using neg by (simp add: c_round_def)
  next
    case False
    with assms have gt: "x - of_int n > 1 / 2"
      unfolding n_def by linarith
    have "\<lfloor>x + 1 / 2\<rfloor> = n + 1"
      using b gt by (intro floor_unique) auto
    moreover have "\<lfloor>- x + 1 / 2\<rfloor> = - n - 1"
      using b gt by (intro floor_unique) auto
    ultimately show ?thesis
      using neg by (simp add: c_round_def)
  qed
qed

lemma py_round_half_even: "py_round x = round_half_even x"
proof (cases "x - of_int \<lfloor>x\<rfloor> = 1 / 2")
  case tie: True
  define n where "n = \<lfloor>x\<rfloor>"
  have x: "x = of_int n + 1 / 2"
    using tie unfolding n_def by linarith
  have "\<bar>x - of_int (c_round x)\<bar> = 1 / 2"
    using c_round_tie [OF x] x by (auto split: if_splits)
  then have pr: "py_round x = 2 * c_round (x / 2)"
    by (simp add: py_round_def)
  show ?thesis
  proof (cases "even n")
    case True
    then obtain k where k: "n = 2 * k" by (elim evenE)
    have half: "x / 2 = of_int k + 1 / 4"
      using x k by simp
    have fl: "\<lfloor>x / 2\<rfloor> = k"
      unfolding half by (intro floor_unique) auto
    have "x / 2 - of_int \<lfloor>x / 2\<rfloor> \<noteq> 1 / 2"
      unfolding fl unfolding half by simp
    then have "c_round (x / 2) = \<lfloor>x / 2 + 1 / 2\<rfloor>"
      by (rule c_round_no_tie)
    also have "\<dots> = k"
      unfolding half by (intro floor_unique) auto
    finally show ?thesis
      using pr tie True k by (simp add: round_half_even_def n_def)
  next
    case False
    then obtain k where k: "n = 2 * k + 1" by (elim oddE)
    have half: "x / 2 = of_int k + 3 / 4"
      using x k by simp
    have fl: "\<lfloor>x / 2\<rfloor> = k"
      unfolding half by (intro floor_unique) auto
    have "x / 2 - of_int \<lfloor>x / 2\<rfloor> \<noteq> 1 / 2"
      unfolding fl unfolding half by simp
    then have "c_round (x / 2) = \<lfloor>x / 2 + 1 / 2\<rfloor>"
      by (rule c_round_no_tie)
    also have "\<dots> = k + 1"
      unfolding half by (intro floor_unique) auto
    finally show ?thesis
      using pr tie False k by (simp add: round_half_even_def n_def)
  qed
next
  case no_tie: False
  define r where "r = \<lfloor>x + 1 / 2\<rfloor>"
  have cr: "c_round x = r"
    unfolding r_def by (rule c_round_no_tie [OF no_tie])
  have b: "of_int r \<le> x + 1 / 2" "x + 1 / 2 < of_int r + 1"
    unfolding r_def by linarith+
  have "x - of_int r \<noteq> - (1 / 2)"
  proof
    assume e: "x - of_int r = - (1 / 2)"
    then have "x = of_int (r - 1) + 1 / 2" by simp
    then have "\<lfloor>x\<rfloor> = r - 1"
      by (intro floor_unique) auto
    with e no_tie show False by simp
  qed
  with b have "\<bar>x - of_int r\<bar> \<noteq> 1 / 2"
    by linarith
  then show ?thesis
    using cr no_tie by (simp add: py_round_def round_half_even_def r_def)
qed


lemma py_round_of_int: "py_round (of_int n) = n"
proof -
  have fl: "\<lfloor>(of_int n :: rat) + 1 / 2\<rfloor> = n" "\<lfloor>- (of_int n :: rat) + 1 / 2\<rfloor> = - n"
    by (rule floor_unique; simp)+
  have "c_round (of_int n) = n"
    using fl by (simp add: c_round_def)
  then show ?thesis
    by (simp add: py_round_def)
qed

section \<open>Properties of the scoring engine\<close>

subsection \<open>Reading the hits\<close>

lemma extract_hit_well_formed:
  "well_formed py h \<longleftrightarrow> (\<exists>d v. extract_hit py h = Inr (d, v))"
  by (auto simp: well_formed_def extract_hit_def py_int_def py_str_def
      split: hit.splits option.splits pyobj.splits sum.splits)

lemma extract_hit_cases:
  obtains (err) e where "extract_hit py h = Inl e" "\<not> well_formed py h"
  | (ok) d v where "extract_hit py h = Inr (d, v)" "well_formed py h"
  using extract_hit_well_formed [of py h] by (cases "extract_hit py h") auto

lemma moderate_extract:
  assumes "moderate py env m h"
  obtains d v where "extract_hit py h = Inr (d, v)" "\<bar>v\<bar> \<le> 2 ^ m"
    "\<bar>base_score env d v\<bar> \<le> 2 ^ m"
  using assms by (auto simp: moderate_def split: sum.splits)

lemma score_loop_cong:
  "map (extract_hit py) xs = map (extract_hit py) ys \<Longrightarrow>
   score_loop py env acc xs = score_loop py env acc ys"
proof (induction xs arbitrary: ys acc)
  case Nil
  then show ?case by simp
next
  case (Cons x xs)
  then obtain y ys' where ys: "ys = y # ys'" and hd: "extract_hit py y = extract_hit py x"
    and tl: "map (extract_hit py) xs = map (extract_hit py) ys'"
    by (cases ys) auto
  show ?case
    unfolding ys using Cons.IH [OF tl] hd
    by (cases "extract_hit py x") (auto simp: Let_def split: sum.splits)
qed

text \<open>One pass over a hit within the range of the floats adds a finite term.\<close>

lemma score_loop_step:
  assumes "moderate py env m h" and "2 * m \<le> 1023"
  shows "\<exists>t. \<bar>t\<bar> \<le> 2 ^ (2 * m)
     \<and> (\<forall>acc hits. score_loop py env acc (h # hits)
           = score_loop py env (float_add acc (Finite t)) hits)"
proof -
  obtain d v where ex: "extract_hit py h = Inr (d, v)" and v: "\<bar>v\<bar> \<le> 2 ^ m"
    and b: "\<bar>base_score env d v\<bar> \<le> 2 ^ m"
    using assms(1) by (rule moderate_extract)
  have m: "m \<le> 1023" using assms(2) by simp
  define base where "base = \<bar>base_score env d v\<bar> * (if v > 0 then 1 else - 1)"
  have "\<bar>\<bar>v\<bar>\<bar> \<le> 2 ^ m" using v by simp
  then obtain fv where fv: "float_of_int \<bar>v\<bar> = Inr (Finite fv)" "\<bar>fv\<bar> \<le> 2 ^ m"
    using float_of_int_bounded m by blast
  obtain s where s: "float_truediv (Finite fv) (Finite 100) = Inr (Finite s)" "\<bar>s\<bar> \<le> 2 ^ m"
    using strength_bounded [OF fv(2) m] by blast
  have "\<bar>base\<bar> \<le> 2 ^ m"
    using b by (simp add: base_def abs_mult)
  then obtain fb where fb: "float_of_int base = Inr (Finite fb)" "\<bar>fb\<bar> \<le> 2 ^ m"
    using float_of_int_bounded m by blast
  have "m + m \<le> 1023" using assms(2) by simp
  then obtain t where t: "float_mul (Finite fb) (Finite s) = Finite t" "\<bar>t\<bar> \<le> 2 ^ (m + m)"
    using float_mul_bounded [OF fb(2) s(2)] by blast
  have "\<forall>acc hits. score_loop py env acc (h # hits)
      = score_loop py env (float_add acc (Finite t)) hits"
    using ex fv(1) s(1) fb(1) t(1) by (simp add: base_def Let_def)
  moreover have "\<bar>t\<bar> \<le> 2 ^ (2 * m)"
    using t(2) by (simp add: mult_2)
  ultimately show ?thesis by blast
qed

lemma score_loop_moderate:
  assumes "\<forall>h\<in>set hits. moderate py env m h" and "\<bar>x\<bar> \<le> 2 ^ k" and "2 * m \<le> k"
    and "k + length hits \<le> 1023"
  shows "\<exists>y. score_loop py env (Finite x) hits = Inr (Finite y) \<and> \<bar>y\<bar> \<le> 2 ^ (k + length hits)"
  using assms
proof (induction hits arbitrary: x k)
  case Nil
  then show ?case by simp
next
  case (Cons h hits)
  have "2 * m \<le> 1023" using Cons.prems(3,4) by simp
  then obtain t where t: "\<bar>t\<bar> \<le> 2 ^ (2 * m)"
    and step: "\<And>acc rest. score_loop py env acc (h # rest)
        = score_loop py env (float_add acc (Finite t)) rest"
    using score_loop_step [of py env m h] Cons.prems(1) by auto
  have "(2::rat) ^ (2 * m) \<le> 2 ^ k"
    using Cons.prems(3) by (intro power_increasing) auto
  with t have tk: "\<bar>t\<bar> \<le> 2 ^ k" by linarith
  have "k < 1023" using Cons.prems(4) by simp
  then obtain z where z: "float_add (Finite x) (Finite t) = Finite z" "\<bar>z\<bar> \<le> 2 ^ Suc k"
    using float_add_bounded [OF Cons.prems(2) tk] by blast
  have "\<exists>y. score_loop py env (Finite z) hits = Inr (Finite y)
      \<and> \<bar>y\<bar> \<le> 2 ^ (Suc k + length hits)"
    using Cons.prems by (intro Cons.IH z(2)) auto
  then have "\<exists>y. score_loop py env (float_add (Finite x) (Finite t)) hits = Inr (Finite y)
      \<and> \<bar>y\<bar> \<le> 2 ^ (k + length (h # hits))"
    by (simp add: z(1))
  then show ?case
    by (simp only: step)
qed

lemma total_score_moderate:
  assumes "\<forall>h\<in>set hits. moderate py env m h" and "2 * m + length hits \<le> 1023"
  shows "\<exists>x. score_loop py env (Finite 0) hits = Inr (Finite x)"
proof -
  have "\<bar>0 :: rat\<bar> \<le> 2 ^ (2 * m)" by simp
  then obtain y where "score_loop py env (Finite 0) hits = Inr (Finite y)"
    using score_loop_moderate [OF assms(1) _ _ assms(2), of 0] by auto
  then show ?thesis by blast
qed

text \<open>A hit that \<open>_extract\<close> refuses ends the loop with an exception, at that hit or before.\<close>

lemma score_loop_malformed:
  assumes "h \<in> set hits" and "\<not> well_formed py h"
  shows "\<exists>e. score_loop py env acc hits = Inl e"
  using assms
proof (induction hits arbitrary: acc)
  case Nil
  then show ?case by simp
next
  case (Cons x hits)
  show ?case
  proof (cases "x = h")
    case True
    with Cons.prems(2) obtain e where "extract_hit py x = Inl e"
      by (cases x rule: extract_hit_cases [of py]) auto
    then show ?thesis by simp
  next
    case False
    with Cons.prems have "\<And>acc. \<exists>e. score_loop py env acc hits = Inl e"
      by (intro Cons.IH) auto
    then show ?thesis
      by (auto simp: Let_def split: sum.splits prod.splits)
  qed
qed

lemma score_loop_prefix:
  assumes "\<forall>h\<in>set pre. moderate py env m h" and "2 * m \<le> 1023"
  shows "\<exists>acc'. score_loop py env acc (pre @ rest) = score_loop py env acc' rest"
  using assms(1)
proof (induction pre arbitrary: acc)
  case Nil
  then show ?case by auto
next
  case (Cons h pre)
  obtain t where step: "\<And>acc rest. score_loop py env acc (h # rest)
        = score_loop py env (float_add acc (Finite t)) rest"
    using score_loop_step [of py env m h] Cons.prems assms(2) by auto
  have "\<exists>acc'. score_loop py env (float_add acc (Finite t)) (pre @ rest)
      = score_loop py env acc' rest"
    using Cons.prems by (intro Cons.IH) simp
  then show ?case
    by (simp only: append_Cons step)
qed


text \<open>
  Each \<open>PatternHit\<close> of \<open>enrich_hits\<close> carries what \<open>_extract\<close> reads from the raw mapping, so
  the loop of \<open>total_score_from_hits\<close> runs alike on both.
\<close>

lemma enrich_hit_fields:
  "enrich_hit py env at_date raw = Inr p \<Longrightarrow> extract_hit py (Raw raw) = Inr (hit_fn p, hit_value p)"
  by (auto simp: enrich_hit_def Let_def split: sum.splits prod.splits if_splits option.splits)

lemma enrich_hits_fields:
  "enrich_hits py env at_date raws = Inr ps \<Longrightarrow>
   map (\<lambda>p. Inr (hit_fn p, hit_value p)) ps = map (\<lambda>m. extract_hit py (Raw m)) raws"
proof (induction raws arbitrary: ps)
  case Nil
  then show ?case by simp
next
  case (Cons m raws)
  then show ?case
    by (auto simp: enrich_hit_fields split: sum.splits)
qed

lemma enrich_hits_same_total:
  assumes "enrich_hits py env at_date raws = Inr ps"
  shows "total_score_from_hits py env (map Enriched ps) = total_score_from_hits py env (map Raw raws)"
proof -
  have "map (extract_hit py) (map Enriched ps) = map (\<lambda>p. Inr (hit_fn p, hit_value p)) ps"
    by (simp add: extract_hit_def)
  also have "\<dots> = map (extract_hit py) (map Raw raws)"
    using enrich_hits_fields [OF assms] by (simp add: comp_def)
  finally have "score_loop py env (Finite 0) (map Enriched ps)
      = score_loop py env (Finite 0) (map Raw raws)"
    by (rule score_loop_cong)
  then show ?thesis by (simp add: total_score_from_hits_def)
qed

text \<open>
  A hit that the loop of \<open>total_score_from_hits\<close> passes is a hit that \<open>enrich_hits\<close>
  enriches.
\<close>

lemma enrich_hit_returns:
  assumes ex: "extract_hit py (Raw raw) = Inr (d, v)"
    and fv: "float_of_int \<bar>v\<bar> = Inr fv"
    and fb: "float_of_int (\<bar>base_score env d v\<bar> * (if v > 0 then 1 else - 1)) = Inr fb"
  shows "\<exists>p. enrich_hit py env at_date raw = Inr p"
proof (cases "v = 0")
  case True
  then show ?thesis
    using ex by (simp add: enrich_hit_def Let_def)
next
  case False
  obtain r where r: "fl (of_int \<bar>v\<bar>) = Finite r"
    using fv by (auto simp: float_of_int_def split: pyfloat.splits)
  then have "\<bar>of_int \<bar>v\<bar> :: rat\<bar> < 2 ^ 1024"
    by (rule fl_finite_lt)
  then have "\<bar>of_int \<bar>v\<bar> / of_int 100 :: rat\<bar> \<le> 2 ^ 1023"
    by (simp add: abs_divide divide_le_eq)
  moreover have "(1023::nat) \<le> 1023" by simp
  ultimately obtain s where s: "fl (of_int \<bar>v\<bar> / of_int 100) = Finite s"
    using fl_bounded by blast
  then have st: "int_truediv \<bar>v\<bar> 100 = Inr (Finite s)"
    by (simp add: int_truediv_def)
  let ?b = "e_score (lookup_bias env d v)"
  have "?b = \<bar>?b\<bar> * (if v > 0 then 1 else - 1) \<or> ?b = - (\<bar>?b\<bar> * (if v > 0 then 1 else - 1))"
    by auto
  then obtain fb' where "float_of_int ?b = Inr fb'"
    using fb float_of_int_minus [OF fb] unfolding base_score_def by metis
  then obtain b where b: "float_of_int ?b = Inr (Finite b)"
    using float_of_int_cases [of ?b] by auto
  have "\<exists>w. py_round_ndigits (float_mul (Finite b) (Finite s)) 2 = Inr w"
  proof (cases "fl (b * s)")
    case (Finite t)
    then show ?thesis
      using round2_finite [OF Finite] by (auto simp: float_mul_def)
  qed (simp_all add: float_mul_def py_round_ndigits_def)
  then show ?thesis
    using ex False st b by (auto simp: enrich_hit_def Let_def)
qed

lemma enrich_hits_returns:
  assumes "score_loop py env acc (map Raw raws) = Inr s"
  shows "\<exists>ps. enrich_hits py env at_date raws = Inr ps"
  using assms
proof (induction raws arbitrary: acc)
  case Nil
  then show ?case by simp
next
  case (Cons raw raws)
  from Cons.prems obtain d v fv strength fb
    where ex: "extract_hit py (Raw raw) = Inr (d, v)"
      and fv: "float_of_int \<bar>v\<bar> = Inr fv"
      and st: "float_truediv fv (Finite 100) = Inr strength"
      and fb: "float_of_int (\<bar>base_score env d v\<bar> * (if v > 0 then 1 else - 1)) = Inr fb"
      and rest: "score_loop py env (float_add acc (float_mul fb strength)) (map Raw raws) = Inr s"
    by (auto simp: Let_def split: sum.splits)
  from Cons.IH [OF rest] obtain ps where "enrich_hits py env at_date raws = Inr ps"
    by blast
  moreover obtain p where "enrich_hit py env at_date raw = Inr p"
    using enrich_hit_returns [OF ex fv fb] by blast
  ultimately show ?case by simp
qed

lemma scenario_A_moderate: "\<forall>h\<in>set scenario_A. moderate sample_py (default_clip sample_bias) 8 h"
  by (simp add: scenario_A_def moderate_def extract_hit_def raw_hit_def py_str_def py_int_def
      base_score_def lookup_bias_def default_clip_def sample_bias_def normalize_variant_def
      entry_with_score_def empty_entry_def)

subsection \<open>The clamp\<close>




text \<open>
  The running total is a binary64 number: on a hit of value 5 with bias score 2 and a hit
  of value 80 with bias score 3 it is \<open>2.5000000000000004\<close>, which rounds to 3, where the
  sum of the exact products is \<open>5/2\<close> and would round to 2.
\<close>

lemma total_score_binary64_example:
  "total_score_from_hits sample_py (default_clip sample_bias)
     [Raw (raw_hit ''CDLHARAMI'' (PyInt 5)), Raw (raw_hit ''CDLENGULFING'' (PyInt 80))] = Inr 3
   \<and> round_half_even (2 * (5 / 100) + 3 * (80 / 100)) = 2"
proof -
  let ?env = "default_clip sample_bias"
  define a :: rat where "a = 7205759403792794 * 2 powi (- 57)"
  define b :: rat where "b = 7205759403792794 * 2 powi (- 56)"
  define c :: rat where "c = 7205759403792794 * 2 powi (- 53)"
  define d :: rat where "d = 5404319552844596 * 2 powi (- 51)"
  define s :: rat where "s = 5629499534213121 * 2 powi (- 51)"
  have ra: "round_half_even ((5 / 100) / 2 powi (- 57)) = 7205759403792794"
    by (rule round_half_even_nearest) (simp_all add: power_int_minus)
  have fa: "fl (5 / 100) = Finite a"
    unfolding a_def
    using fl_unique [of "- 5" "5 / 100" "2 powi (- 57)" 7205759403792794] ra
    by (simp add: power_int_minus)
  have rb: "round_half_even ((2 * a) / 2 powi (- 56)) = 7205759403792794"
    using round_half_even_of_int [of 7205759403792794] by (simp add: a_def power_int_minus)
  have fb: "fl (2 * a) = Finite b"
    unfolding b_def
    using fl_unique [of "- 4" "2 * a" "2 powi (- 56)" 7205759403792794] rb
    by (simp add: a_def power_int_minus)
  have fb': "fl b = Finite b"
    using fb by (simp add: a_def b_def power_int_minus)
  have rc: "round_half_even ((80 / 100) / 2 powi (- 53)) = 7205759403792794"
    by (rule round_half_even_nearest) (simp_all add: power_int_minus)
  have fc: "fl (80 / 100) = Finite c"
    unfolding c_def
    using fl_unique [of "- 1" "80 / 100" "2 powi (- 53)" 7205759403792794] rc
    by (simp add: power_int_minus)
  have "(3 * c) / 2 powi (- 51) = of_int 5404319552844595 + 1 / 2"
    by (simp add: c_def power_int_minus)
  then have rd: "round_half_even ((3 * c) / 2 powi (- 51)) = 5404319552844596"
    by (simp only: round_half_even_tie) simp
  have fd: "fl (3 * c) = Finite d"
    unfolding d_def
    using fl_unique [of 1 "3 * c" "2 powi (- 51)" 5404319552844596] rd
    by (simp add: c_def power_int_minus)
  have rs: "round_half_even ((b + d) / 2 powi (- 51)) = 5629499534213121"
    by (rule round_half_even_nearest) (simp_all add: b_def d_def power_int_minus)
  have fs: "fl (b + d) = Finite s"
    unfolding s_def
    using fl_unique [of 1 "b + d" "2 powi (- 51)" 5629499534213121] rs
    by (simp add: b_def d_def power_int_minus)
  have rr: "py_round s = 3"
    unfolding py_round_half_even
    by (rule round_half_even_nearest) (simp_all add: s_def power_int_minus)
  have ints: "float_of_int 5 = Inr (Finite 5)" "float_of_int 80 = Inr (Finite 80)"
    "float_of_int 2 = Inr (Finite 2)" "float_of_int 3 = Inr (Finite 3)"
    using float_of_int_small [of 5] float_of_int_small [of 80] float_of_int_small [of 2]
      float_of_int_small [of 3]
    by simp_all
  have ops: "float_truediv (Finite 5) (Finite 100) = Inr (Finite a)"
    "float_truediv (Finite 80) (Finite 100) = Inr (Finite c)"
    "float_mul (Finite 2) (Finite a) = Finite b"
    "float_mul (Finite 3) (Finite c) = Finite d"
    "float_add (Finite 0) (Finite b) = Finite b"
    "float_add (Finite b) (Finite d) = Finite s"
    using fa fb fb' fc fd fs by (simp_all add: float_truediv_def float_mul_def float_add_def)
  have ex: "extract_hit sample_py (Raw (raw_hit ''CDLHARAMI'' (PyInt 5))) = Inr (''CDLHARAMI'', 5)"
    "extract_hit sample_py (Raw (raw_hit ''CDLENGULFING'' (PyInt 80))) = Inr (''CDLENGULFING'', 80)"
    by (simp_all add: extract_hit_def raw_hit_def py_str_def py_int_def)
  have bs: "base_score ?env ''CDLHARAMI'' 5 = 2" "base_score ?env ''CDLENGULFING'' 80 = 3"
    by (simp_all add: base_score_def lookup_bias_def default_clip_def sample_bias_def
        normalize_variant_def entry_with_score_def empty_entry_def)
  have clip: "CLIP_MIN ?env = - 5" "CLIP_MAX ?env = 5"
    by (simp_all add: default_clip_def)
  have "score_loop sample_py ?env (Finite 0)
      [Raw (raw_hit ''CDLHARAMI'' (PyInt 5)), Raw (raw_hit ''CDLENGULFING'' (PyInt 80))]
      = Inr (Finite s)"
    by (simp add: ex bs ints ops)
  then have "total_score_from_hits sample_py ?env
      [Raw (raw_hit ''CDLHARAMI'' (PyInt 5)), Raw (raw_hit ''CDLENGULFING'' (PyInt 80))] = Inr 3"
    by (simp add: total_score_from_hits_def float_round_def rr clip)
  moreover have "round_half_even (2 * (5 / 100) + 3 * (80 / 100)) = 2"
    using round_half_even_tie [of 2] by simp
  ultimately show ?thesis by simp
qed

subsection \<open>The composite score against its reference\<close>




subsection \<open>Hits that cannot be read\<close>

text \<open>
  C6, as the code has it. \<open>total_score_from_hits\<close> has no handler around \<open>_extract\<close>: a list
  that holds a hit \<open>_extract\<close> raises on yields no score, \<open>total_score_from_hits\<close> raises.
  When the hits before it have values and bias scores of at most \<open>2 ** m\<close> in magnitude,
  \<open>2 * m \<le> 1023\<close>, the exception is the one \<open>_extract\<close> raises on that hit, whatever follows
  it in the list.
\<close>

theorem total_score_raises_on_malformed:
  "(h \<in> set hits \<and> \<not> well_formed py h \<longrightarrow> (\<exists>e. total_score_from_hits py env hits = Inl e))
   \<and> ((\<forall>x\<in>set pre. moderate py env m x) \<and> 2 * m \<le> 1023 \<and> extract_hit py h = Inl e \<longrightarrow>
        total_score_from_hits py env (pre @ h # post) = Inl e)"
proof (intro conjI impI)
  assume "h \<in> set hits \<and> \<not> well_formed py h"
  then obtain e where "score_loop py env (Finite 0) hits = Inl e"
    using score_loop_malformed by blast
  then show "\<exists>e. total_score_from_hits py env hits = Inl e"
    by (simp add: total_score_from_hits_def)
next
  assume a: "(\<forall>x\<in>set pre. moderate py env m x) \<and> 2 * m \<le> 1023 \<and> extract_hit py h = Inl e"
  then obtain acc' where "score_loop py env (Finite 0) (pre @ h # post)
      = score_loop py env acc' (h # post)"
    using score_loop_prefix [of pre py env m "Finite 0" "h # post"] by blast
  with a show "total_score_from_hits py env (pre @ h # post) = Inl e"
    by (simp add: total_score_from_hits_def)
qed

text \<open>
  A record whose value is \<open>None\<close>, first in the list and after scenario A.
\<close>

theorem total_score_raises_on_malformed_witness:
  "(\<exists>e. total_score_from_hits sample_py (default_clip sample_bias)
          (Raw (raw_hit ''CDLENGULFING'' PyNone) # scenario_A) = Inl e)
   \<and> total_score_from_hits sample_py (default_clip sample_bias)
        (scenario_A @ Raw (raw_hit ''CDLENGULFING'' PyNone)
           # [Raw (raw_hit ''CDLENGULFING'' (PyInt (- 100)))]) = Inl TypeError"
proof -
  let ?env = "default_clip sample_bias"
  let ?bad = "Raw (raw_hit ''CDLENGULFING'' PyNone)"
  have bad: "\<not> well_formed sample_py ?bad" "extract_hit sample_py ?bad = Inl TypeError"
    by (simp_all add: well_formed_def extract_hit_def raw_hit_def py_str_def py_int_def)
  have "?bad \<in> set (?bad # scenario_A)"
    by simp
  then have "\<exists>e. total_score_from_hits sample_py ?env (?bad # scenario_A) = Inl e"
    using total_score_raises_on_malformed [of ?bad "?bad # scenario_A" sample_py ?env] bad(1)
    by blast
  moreover have "total_score_from_hits sample_py ?env
      (scenario_A @ ?bad # [Raw (raw_hit ''CDLENGULFING'' (PyInt (- 100)))]) = Inl TypeError"
    using total_score_raises_on_malformed [of ?bad _ sample_py ?env scenario_A 8 TypeError]
      scenario_A_moderate bad(2)
    by simp
  ultimately show ?thesis by blast
qed

text \<open>
  C6 as stated fails: a record whose value is the text \<open>abc\<close> is not passed over, the
  \<open>ValueError\<close> of \<open>int\<close> ends the scoring of the hit that follows it.
\<close>

theorem malformed_hit_counterexample:
  "total_score_from_hits sample_py (default_clip sample_bias)
     [Raw (raw_hit ''CDLENGULFING'' (PyStr ''abc'')), Raw (raw_hit ''CDLENGULFING'' (PyInt 100))]
   = Inl ValueError"
  by (simp add: total_score_from_hits_def extract_hit_def raw_hit_def py_str_def py_int_def
      sample_py_def ascii_numeral_def digit_val_def)

subsection \<open>Enrichment\<close>

text \<open>
  C10. Each \<open>PatternHit\<close> that \<open>enrich_hits\<close> returns carries the \<open>fn\<close> and the \<open>value\<close> that
  \<open>_extract\<close> reads from the raw mapping, and the composite score of the enriched list is
  the composite score of the raw list, exceptions included. Whenever the raw list has a
  composite score, \<open>enrich_hits\<close> returns and the enriched list has the same score. Both
  return on every list of hits that \<open>_extract\<close> reads and whose values and bias scores are
  at most \<open>2 ** m\<close> in magnitude, where \<open>2 * m\<close> plus the number of hits is at most 1023.
\<close>

theorem enrich_preserves_total:
  "(enrich_hits py env at_date raws = Inr ps \<longrightarrow>
      map (\<lambda>p. Inr (hit_fn p, hit_value p)) ps = map (\<lambda>m. extract_hit py (Raw m)) raws
      \<and> total_score_from_hits py env (map Enriched ps)
        = total_score_from_hits py env (map Raw raws))
   \<and> (total_score_from_hits py env (map Raw raws) = Inr s \<longrightarrow>
        (\<exists>ps. enrich_hits py env at_date raws = Inr ps
           \<and> total_score_from_hits py env (map Enriched ps) = Inr s))
   \<and> ((\<forall>r\<in>set raws. moderate py env m (Raw r)) \<and> 2 * m + length raws \<le> 1023 \<longrightarrow>
        (\<exists>ps s. enrich_hits py env at_date raws = Inr ps
           \<and> total_score_from_hits py env (map Enriched ps) = Inr s))"
proof -
  have same: "map (\<lambda>p. Inr (hit_fn p, hit_value p)) ps = map (\<lambda>m. extract_hit py (Raw m)) raws
      \<and> total_score_from_hits py env (map Enriched ps)
        = total_score_from_hits py env (map Raw raws)"
    if "enrich_hits py env at_date raws = Inr ps" for ps
    using that enrich_hits_fields enrich_hits_same_total by blast
  have returns: "\<exists>ps. enrich_hits py env at_date raws = Inr ps
           \<and> total_score_from_hits py env (map Enriched ps) = Inr s"
    if "total_score_from_hits py env (map Raw raws) = Inr s" for s
  proof -
    from that obtain score where "score_loop py env (Finite 0) (map Raw raws) = Inr score"
      by (auto simp: total_score_from_hits_def split: sum.splits)
    then obtain ps where "enrich_hits py env at_date raws = Inr ps"
      using enrich_hits_returns by blast
    with that same show ?thesis by auto
  qed
  have "\<exists>ps s. enrich_hits py env at_date raws = Inr ps
           \<and> total_score_from_hits py env (map Enriched ps) = Inr s"
    if "(\<forall>r\<in>set raws. moderate py env m (Raw r)) \<and> 2 * m + length raws \<le> 1023"
  proof -
    from that have "\<forall>h\<in>set (map Raw raws). moderate py env m h"
      "2 * m + length (map Raw raws) \<le> 1023"
      by simp_all
    then obtain x where "score_loop py env (Finite 0) (map Raw raws) = Inr (Finite x)"
      using total_score_moderate by blast
    then obtain s where "total_score_from_hits py env (map Raw raws) = Inr s"
      by (simp add: total_score_from_hits_def float_round_def)
    with returns show ?thesis by blast
  qed
  with same returns show ?thesis by blast
qed

text \<open>
  Two raw hits as the detection builds them.
\<close>

theorem enrich_preserves_total_witness:
  "\<exists>ps s. enrich_hits sample_py (default_clip sample_bias) None
          [raw_hit ''CDLENGULFING'' (PyInt 100), raw_hit ''CDLHARAMI'' (PyInt (- 100))] = Inr ps
      \<and> map (\<lambda>p. Inr (hit_fn p, hit_value p)) ps
          = map (\<lambda>m. extract_hit sample_py (Raw m))
              [raw_hit ''CDLENGULFING'' (PyInt 100), raw_hit ''CDLHARAMI'' (PyInt (- 100))]
      \<and> total_score_from_hits sample_py (default_clip sample_bias) (map Enriched ps) = Inr s
      \<and> total_score_from_hits sample_py (default_clip sample_bias)
          (map Raw [raw_hit ''CDLENGULFING'' (PyInt 100), raw_hit ''CDLHARAMI'' (PyInt (- 100))])
        = Inr s"
proof -
  let ?raws = "[raw_hit ''CDLENGULFING'' (PyInt 100), raw_hit ''CDLHARAMI'' (PyInt (- 100))]"
  let ?env = "default_clip sample_bias"
  have mod: "\<forall>r\<in>set ?raws. moderate sample_py ?env 8 (Raw r)"
    by (simp add: moderate_def extract_hit_def raw_hit_def py_str_def py_int_def
      base_score_def lookup_bias_def default_clip_def sample_bias_def normalize_variant_def
      entry_with_score_def empty_entry_def)
  have "2 * (8::nat) + length ?raws \<le> 1023" by simp
  with mod obtain ps s where ps: "enrich_hits sample_py ?env None ?raws = Inr ps"
    "total_score_from_hits sample_py ?env (map Enriched ps) = Inr s"
    using enrich_preserves_total [of sample_py ?env None ?raws _ _ 8] by blast
  then show ?thesis
    using enrich_preserves_total [of sample_py ?env None ?raws ps] by metis
qed

text \<open>
  C3. \<open>enrich_hits\<close> multiplies the stored bias score by the strength and does not re-sign
  it: with a table whose only entry for \<open>CDLHARAMI\<close> is a neutral one of score 2, the hit of
  value \<open>-100\<close> gets the weighted score \<open>+2.0\<close>, while \<open>total_score_from_hits\<close> counts the same
  hit as \<open>-2\<close>.
\<close>

theorem enrich_hits_keeps_bias_sign:
  "enrich_hits py (default_clip sample_bias) None [raw_hit ''CDLHARAMI'' (PyInt (- 100))]
     = Inr [\<lparr>hit_fn = ''CDLHARAMI'', hit_value = - 100, hit_strength = Some (Finite 1),
             hit_base_score = Some 2, hit_weighted_score = Some (Finite 2), hit_variant = PyNone,
             hit_english = PyNone, hit_japanese = PyNone, hit_typical_setup = PyNone,
             hit_next_move = PyNone, hit_description = PyNone, hit_date = None\<rparr>]
   \<and> total_score_from_hits py (default_clip sample_bias)
       [Raw (raw_hit ''CDLHARAMI'' (PyInt (- 100)))]
     = Inr (- 2)"
proof -
  let ?env = "default_clip sample_bias"
  have fl: "fl 1 = Finite 1" "fl 2 = Finite 2" "fl (- 2) = Finite (- 2)" "fl 100 = Finite 100"
    using fl_int [of 1] fl_int [of 2] fl_int [of "- 2"] fl_int [of 100] by simp_all
  have r: "round_half_even 200 = 200" "py_round (- 2) = - 2"
    using round_half_even_of_int [of 200] py_round_of_int [of "- 2"] by simp_all
  have ex: "extract_hit py (Raw (raw_hit ''CDLHARAMI'' (PyInt (- 100)))) = Inr (''CDLHARAMI'', - 100)"
    by (simp add: extract_hit_def raw_hit_def py_str_def py_int_def)
  have lk: "lookup_bias ?env ''CDLHARAMI'' (- 100) = entry_with_score 2"
    by (simp add: lookup_bias_def default_clip_def sample_bias_def normalize_variant_def)
  have clip: "CLIP_MIN ?env = - 5" "CLIP_MAX ?env = 5"
    by (simp_all add: default_clip_def)
  have "enrich_hit py ?env None (raw_hit ''CDLHARAMI'' (PyInt (- 100)))
      = Inr \<lparr>hit_fn = ''CDLHARAMI'', hit_value = - 100, hit_strength = Some (Finite 1),
             hit_base_score = Some 2, hit_weighted_score = Some (Finite 2), hit_variant = PyNone,
             hit_english = PyNone, hit_japanese = PyNone, hit_typical_setup = PyNone,
             hit_next_move = PyNone, hit_description = PyNone, hit_date = None\<rparr>"
    by (simp add: enrich_hit_def ex lk entry_with_score_def empty_entry_def int_truediv_def
        float_of_int_def float_mul_def py_round_ndigits_def fl r Let_def)
  moreover have "total_score_from_hits py ?env [Raw (raw_hit ''CDLHARAMI'' (PyInt (- 100)))]
      = Inr (- 2)"
    by (simp add: total_score_from_hits_def ex lk clip base_score_def entry_with_score_def
        float_of_int_def float_truediv_def float_mul_def float_add_def float_round_def fl r
        Let_def)
  ultimately show ?thesis by simp
qed

subsection \<open>Bias lookup\<close>

text \<open>
  C7. The variant is \<open>bullish\<close>, \<open>bearish\<close> or \<open>neutral\<close> by the sign of the value. The lookup
  returns the entry of the detector for that variant; without one, its \<open>neutral\<close> entry;
  without that, the first entry the detector has; and for a detector without entries the
  entry of score 0 whose text fields are all \<open>None\<close>.
\<close>

theorem lookup_bias_fallback:
  "(0 < v \<longrightarrow> normalize_variant v = ''bullish'')
   \<and> (v < 0 \<longrightarrow> normalize_variant v = ''bearish'')
   \<and> (v = 0 \<longrightarrow> normalize_variant v = ''neutral'')
   \<and> (bias_map env d = Some es \<and> map_of es (normalize_variant v) = Some e \<longrightarrow>
        lookup_bias env d v = e)
   \<and> (bias_map env d = Some es \<and> map_of es (normalize_variant v) = None
        \<and> map_of es ''neutral'' = Some e \<longrightarrow> lookup_bias env d v = e)
   \<and> (bias_map env d = Some es \<and> es \<noteq> [] \<and> map_of es (normalize_variant v) = None
        \<and> map_of es ''neutral'' = None \<longrightarrow>
        lookup_bias env d v = snd (hd es) \<and> lookup_bias env d v \<in> snd ` set es)
   \<and> (bias_map env d = None \<or> bias_map env d = Some [] \<longrightarrow>
        lookup_bias env d v
          = \<lparr>e_score = 0, e_variant = PyNone, e_english = PyNone, e_japanese = PyNone,
             e_typical = PyNone, e_next_move = PyNone, e_description = PyNone\<rparr>)"
  by (auto simp: lookup_bias_def normalize_variant_def empty_entry_def)

text \<open>
  The four cases on the sample table.
\<close>

theorem lookup_bias_fallback_witness:
  "normalize_variant 100 = ''bullish'' \<and> normalize_variant (- 100) = ''bearish''
   \<and> normalize_variant 0 = ''neutral''
   \<and> lookup_bias (default_clip sample_bias) ''CDLENGULFING'' (- 100) = entry_with_score (- 3)
   \<and> lookup_bias (default_clip sample_bias) ''CDLHARAMI'' 100 = entry_with_score 2
   \<and> lookup_bias (default_clip sample_bias) ''CDLKICKINGBYLENGTH'' (- 100) = entry_with_score 4
   \<and> lookup_bias (default_clip sample_bias) ''CDLDOJI'' 100
        = \<lparr>e_score = 0, e_variant = PyNone, e_english = PyNone, e_japanese = PyNone,
           e_typical = PyNone, e_next_move = PyNone, e_description = PyNone\<rparr>"
proof -
  let ?env = "default_clip sample_bias"
  have bm: "bias_map ?env ''CDLENGULFING''
        = Some [(''bullish'', entry_with_score 3), (''bearish'', entry_with_score (- 3))]"
    "bias_map ?env ''CDLHARAMI'' = Some [(''neutral'', entry_with_score 2)]"
    "bias_map ?env ''CDLKICKINGBYLENGTH'' = Some [(''bullish'', entry_with_score 4)]"
    "bias_map ?env ''CDLDOJI'' = None"
    by (simp_all add: default_clip_def sample_bias_def)
  have nv: "normalize_variant 100 = ''bullish''" "normalize_variant (- 100) = ''bearish''"
    "normalize_variant 0 = ''neutral''"
    using lookup_bias_fallback [of 100] lookup_bias_fallback [of "- 100"]
      lookup_bias_fallback [of 0] by simp_all
  have "lookup_bias ?env ''CDLENGULFING'' (- 100) = entry_with_score (- 3)"
    using lookup_bias_fallback [of "- 100" ?env "''CDLENGULFING''"
        "[(''bullish'', entry_with_score 3), (''bearish'', entry_with_score (- 3))]"
        "entry_with_score (- 3)"] bm nv
    by simp
  moreover have "lookup_bias ?env ''CDLHARAMI'' 100 = entry_with_score 2"
    using lookup_bias_fallback [of 100 ?env "''CDLHARAMI''"
        "[(''neutral'', entry_with_score 2)]" "entry_with_score 2"] bm nv
    by simp
  moreover have "lookup_bias ?env ''CDLKICKINGBYLENGTH'' (- 100) = entry_with_score 4"
    using lookup_bias_fallback [of "- 100" ?env "''CDLKICKINGBYLENGTH''"
        "[(''bullish'', entry_with_score 4)]"] bm nv
    by simp
  moreover have "lookup_bias ?env ''CDLDOJI'' 100
        = \<lparr>e_score = 0, e_variant = PyNone, e_english = PyNone, e_japanese = PyNone,
           e_typical = PyNone, e_next_move = PyNone, e_description = PyNone\<rparr>"
    using lookup_bias_fallback [of 100 ?env "''CDLDOJI''"] bm
    by simp
  ultimately show ?thesis
    using nv by simp
qed

subsection \<open>Categories\<close>

text \<open>
  C4. \<open>categorize_score\<close> assigns every integer score its category by the five ranges
  \<open>score \<ge> 3\<close>, \<open>1 \<le> score \<le> 2\<close>, \<open>score = 0\<close>, \<open>-2 \<le> score \<le> -1\<close> and \<open>score \<le> -3\<close>, which
  cover the integers and exclude one another; the five category names are distinct; and
  \<open>None\<close> is mapped to \<open>None\<close> and the em dash.
\<close>

theorem categorize_score_partition:
  "(3 \<le> s \<longrightarrow> fst (categorize_score (Some s)) = Some (''Strong'' @ FULLWIDTH_PLUS))
   \<and> (1 \<le> s \<and> s \<le> 2 \<longrightarrow> fst (categorize_score (Some s)) = Some (''Mild'' @ FULLWIDTH_PLUS))
   \<and> (s = 0 \<longrightarrow> fst (categorize_score (Some s)) = Some ''Neutral'')
   \<and> (- 2 \<le> s \<and> s \<le> - 1 \<longrightarrow> fst (categorize_score (Some s)) = Some (''Mild'' @ MINUS_SIGN))
   \<and> (s \<le> - 3 \<longrightarrow> fst (categorize_score (Some s)) = Some (''Strong'' @ MINUS_SIGN))
   \<and> distinct [''Strong'' @ FULLWIDTH_PLUS, ''Mild'' @ FULLWIDTH_PLUS, ''Neutral'',
        ''Mild'' @ MINUS_SIGN, ''Strong'' @ MINUS_SIGN]
   \<and> categorize_score None = (None, EM_DASH)"
  by (simp add: categorize_score_def FULLWIDTH_PLUS_def MINUS_SIGN_def)

text \<open>
  The boundary values and their neighbours.
\<close>

theorem categorize_score_partition_witness:
  "fst (categorize_score (Some 5)) = Some (''Strong'' @ FULLWIDTH_PLUS)
   \<and> fst (categorize_score (Some 3)) = Some (''Strong'' @ FULLWIDTH_PLUS)
   \<and> fst (categorize_score (Some 2)) = Some (''Mild'' @ FULLWIDTH_PLUS)
   \<and> fst (categorize_score (Some 1)) = Some (''Mild'' @ FULLWIDTH_PLUS)
   \<and> fst (categorize_score (Some 0)) = Some ''Neutral''
   \<and> fst (categorize_score (Some (- 1))) = Some (''Mild'' @ MINUS_SIGN)
   \<and> fst (categorize_score (Some (- 2))) = Some (''Mild'' @ MINUS_SIGN)
   \<and> fst (categorize_score (Some (- 3))) = Some (''Strong'' @ MINUS_SIGN)
   \<and> fst (categorize_score (Some (- 5))) = Some (''Strong'' @ MINUS_SIGN)"
  using categorize_score_partition [of 5] categorize_score_partition [of 3]
    categorize_score_partition [of 2] categorize_score_partition [of 1]
    categorize_score_partition [of 0] categorize_score_partition [of "- 1"]
    categorize_score_partition [of "- 2"] categorize_score_partition [of "- 3"]
    categorize_score_partition [of "- 5"]
  by simp

text \<open>
  C5, as the code has it. The categories and labels \<open>categorize_score\<close> returns for 4, 2,
  0, -1 and -5 are the ones \<open>test_categorize_score_labels\<close> asserts: they are written with
  the fullwidth plus sign and the minus sign, not with \<open>-positive\<close>, \<open>-negative\<close>, \<open>+\<close> and \<open>-\<close>.
\<close>

theorem categorize_score_scenario_B:
  "categorize_score (Some 4)
     = (Some (''Strong'' @ FULLWIDTH_PLUS),
        UP_ARROW @ UP_ARROW @ '' Strong'' @ FULLWIDTH_PLUS @ '' (+4)'')
   \<and> categorize_score (Some 2)
     = (Some (''Mild'' @ FULLWIDTH_PLUS), UP_ARROW @ '' Mild'' @ FULLWIDTH_PLUS @ '' (+2)'')
   \<and> categorize_score (Some 0) = (Some ''Neutral'', ''Neutral (0)'')
   \<and> categorize_score (Some (- 1))
     = (Some (''Mild'' @ MINUS_SIGN), DOWN_ARROW @ '' Mild'' @ MINUS_SIGN @ '' (-1)'')
   \<and> categorize_score (Some (- 5))
     = (Some (''Strong'' @ MINUS_SIGN),
        DOWN_ARROW @ DOWN_ARROW @ '' Strong'' @ MINUS_SIGN @ '' (-5)'')"
  by (simp add: categorize_score_def format_plus_d_def digits.simps digit_char_def)

text \<open>
  C5 as stated fails: the pair for 2 is not \<open>("Mild-positive", "\<dots> Mild+ (+2)")\<close>, and the
  label for 4 is not written with the ASCII plus sign.
\<close>

theorem categorize_score_literal_counterexample:
  "categorize_score (Some 2) \<noteq> (Some ''Mild-positive'', UP_ARROW @ '' Mild+ (+2)'')
   \<and> snd (categorize_score (Some 4)) \<noteq> UP_ARROW @ UP_ARROW @ '' Strong+ (+4)''"
  by (simp add: categorize_score_def FULLWIDTH_PLUS_def UP_ARROW_def)

section \<open>Properties of the pattern detection\<close>

subsection \<open>Degenerate input\<close>

lemma column_dict_fold:
  "map_of (fold (\<lambda>c cols. AList.update (str_lower c) c cols) cs al) key = None
     \<longleftrightarrow> map_of al key = None \<and> (\<forall>c\<in>set cs. str_lower c \<noteq> key)"
  by (induction cs arbitrary: al) (auto simp: update_conv')

lemma column_dict_None:
  "map_of (column_dict df) key = None \<longleftrightarrow> (\<forall>c\<in>set (df_columns df). str_lower c \<noteq> key)"
  by (simp add: column_dict_def column_dict_fold)

lemma compute_pattern_series_missing:
  assumes "key \<in> set [''open'', ''high'', ''low'', ''close'']"
    and "\<forall>c\<in>set (df_columns df). str_lower c \<noteq> key"
  shows "compute_pattern_series py ta to_datetime df patterns = Inr ([], [])"
proof -
  have "map_of (column_dict df) key = None"
    using assms(2) by (simp add: column_dict_None)
  with assms(1) have "list_ex (\<lambda>col. col = None)
      (map (map_of (column_dict df)) [''open'', ''high'', ''low'', ''close''])"
    by auto
  then show ?thesis
    by (simp add: compute_pattern_series_def Let_def)
qed

text \<open>
  C9. Without the backend, on a frame without rows or without columns, or when one of
  the columns \<open>open\<close>, \<open>high\<close>, \<open>low\<close> and \<open>close\<close> is missing under every spelling of its
  letters' case, \<open>detect_with_history\<close> returns the pair of empty lists and does not raise.
\<close>

theorem detect_degenerate_input:
  "ta = None \<or> df_rows df = [] \<or> df_columns df = []
     \<or> (\<exists>key\<in>set [''open'', ''high'', ''low'', ''close''].
          \<forall>c\<in>set (df_columns df). str_lower c \<noteq> key)
   \<Longrightarrow> detect_with_history py ta to_datetime df lookback patterns = Inr ([], [])"
proof (elim disjE bexE)
  fix key
  assume "key \<in> set [''open'', ''high'', ''low'', ''close'']"
    and "\<forall>c\<in>set (df_columns df). str_lower c \<noteq> key"
  then have "compute_pattern_series py ta to_datetime df patterns = Inr ([], [])"
    by (rule compute_pattern_series_missing)
  then show ?thesis
    by (simp add: detect_with_history_def)
qed (simp_all add: detect_with_history_def df_empty_def)

text \<open>
  No backend; no rows; no \<open>Close\<close> column.
\<close>

theorem detect_degenerate_input_witness:
  "detect_with_history sample_py None sample_to_datetime sample_df 20 None = Inr ([], [])
   \<and> detect_with_history sample_py (Some sample_ta) sample_to_datetime
         (sample_df\<lparr>df_rows := []\<rparr>) 20 None
       = Inr ([], [])
   \<and> detect_with_history sample_py (Some sample_ta) sample_to_datetime
         (sample_df\<lparr>df_columns := [''Date'', ''Open'', ''High'', ''Low'']\<rparr>) 20 None
       = Inr ([], [])"
proof -
  have missing: "\<exists>key\<in>set [''open'', ''high'', ''low'', ''close''].
      \<forall>c\<in>set (df_columns (sample_df\<lparr>df_columns := [''Date'', ''Open'', ''High'', ''Low'']\<rparr>)).
        str_lower c \<noteq> key"
    by (simp add: str_lower_def lower_char_def)
  show ?thesis
    using detect_degenerate_input [of None sample_df sample_py sample_to_datetime 20 None]
      detect_degenerate_input [of "Some sample_ta" "sample_df\<lparr>df_rows := []\<rparr>"
        sample_py sample_to_datetime 20 None]
      detect_degenerate_input [of "Some sample_ta"
        "sample_df\<lparr>df_columns := [''Date'', ''Open'', ''High'', ''Low'']\<rparr>"
        sample_py sample_to_datetime 20 None]
      missing
    by simp
qed

subsection \<open>The history window\<close>

text \<open>
  The hits of a day are the nonzero integers that the series of the detectors hold at the
  position of the day, and the series are the outputs of the enabled \<open>CDL\<close> functions on
  the four price columns.
\<close>

lemma day_hits_origin:
  "m \<in> set (day_hits py items idx) \<Longrightarrow>
   \<exists>fn series x v. (fn, series) \<in> set items \<and> py_getitem series idx = Inr x
     \<and> cell_int py x = Inr v \<and> v \<noteq> 0 \<and> m = raw_hit fn (PyInt v)"
proof (induction items)
  case Nil
  then show ?case by simp
next
  case (Cons item items)
  obtain fn series where item: "item = (fn, series)"
    by (cases item)
  show ?case
  proof (cases "m \<in> set (day_hits py items idx)")
    case True
    then obtain fn' series' x v where "(fn', series') \<in> set items"
      "py_getitem series' idx = Inr x" "cell_int py x = Inr v" "v \<noteq> 0" "m = raw_hit fn' (PyInt v)"
      using Cons.IH by blast
    then show ?thesis
      by (intro exI [of _ fn'] exI [of _ series'] exI [of _ x] exI [of _ v]) simp
  next
    case False
    with Cons.prems obtain x v where "py_getitem series idx = Inr x" "cell_int py x = Inr v"
      "v \<noteq> 0" "m = raw_hit fn (PyInt v)"
      unfolding item by (auto split: sum.splits if_splits)
    then show ?thesis
      unfolding item
      by (intro exI [of _ fn] exI [of _ series] exI [of _ x] exI [of _ v]) simp
  qed
qed

lemma day_hits_complete:
  "(fn, series) \<in> set items \<Longrightarrow> py_getitem series idx = Inr x \<Longrightarrow> cell_int py x = Inr v
   \<Longrightarrow> v \<noteq> 0 \<Longrightarrow> raw_hit fn (PyInt v) \<in> set (day_hits py items idx)"
  by (induction items) (auto split: sum.splits)

lemma day_hits_set:
  "m \<in> set (day_hits py items idx) \<longleftrightarrow>
   (\<exists>fn series x v. (fn, series) \<in> set items \<and> py_getitem series idx = Inr x
     \<and> cell_int py x = Inr v \<and> v \<noteq> 0 \<and> m = raw_hit fn (PyInt v))"
  using day_hits_origin [of m py items idx] day_hits_complete [of _ _ items idx _ py]
  by blast

lemma run_detectors_origin:
  assumes "(fn, series) \<in> set (run_detectors t o' h l c series_map fns)"
  shows "(fn, series) \<in> set series_map
     \<or> (fn \<in> set fns \<and> (\<exists>f. map_of t fn = Some f \<and> f o' h l c = IsSeries series))"
  using assms
proof (induction fns arbitrary: series_map)
  case Nil
  then show ?case by simp
next
  case (Cons g fns)
  show ?case
  proof (cases "map_of t g")
    case None
    with Cons.prems have "(fn, series) \<in> set (run_detectors t o' h l c series_map fns)"
      by simp
    from Cons.IH [OF this] show ?thesis by auto
  next
    case (Some f)
    show ?thesis
    proof (cases "f o' h l c")
      case (IsSeries out)
      with Some Cons.prems
      have "(fn, series) \<in> set (run_detectors t o' h l c (AList.update g out series_map) fns)"
        by simp
      from Cons.IH [OF this] have "(fn, series) \<in> set (AList.update g out series_map)
          \<or> (fn \<in> set fns \<and> (\<exists>f. map_of t fn = Some f \<and> f o' h l c = IsSeries series))" .
      moreover have "set (AList.update g out series_map) \<subseteq> insert (g, out) (set series_map)"
        by (induction series_map) auto
      ultimately show ?thesis
        using Some IsSeries by auto
    next
      case Raises
      with Some Cons.prems
      have "(fn, series) \<in> set (run_detectors t o' h l c series_map fns)"
        by simp
      from Cons.IH [OF this] show ?thesis by auto
    next
      case NotSeries
      with Some Cons.prems
      have "(fn, series) \<in> set (run_detectors t o' h l c series_map fns)"
        by simp
      from Cons.IH [OF this] show ?thesis by auto
    qed
  qed
qed

lemma compute_pattern_series_origin:
  assumes "compute_pattern_series py ta to_datetime df patterns = Inr (series_map, ds)"
    and "(fn, series) \<in> set series_map"
  shows "\<exists>t f. ta = Some t \<and> map_of t fn = Some f \<and> take 3 fn = ''CDL''
     \<and> f (df_column df (the (map_of (column_dict df) ''open'')))
          (df_column df (the (map_of (column_dict df) ''high'')))
          (df_column df (the (map_of (column_dict df) ''low'')))
          (df_column df (the (map_of (column_dict df) ''close''))) = IsSeries series"
proof -
  let ?o = "df_column df (the (map_of (column_dict df) ''open''))"
  let ?h = "df_column df (the (map_of (column_dict df) ''high''))"
  let ?l = "df_column df (the (map_of (column_dict df) ''low''))"
  let ?c = "df_column df (the (map_of (column_dict df) ''close''))"
  let ?t = "case ta of None \<Rightarrow> [] | Some t \<Rightarrow> t"
  let ?functions = "case patterns of
      Some ps \<Rightarrow> filter (\<lambda>fn. str_upper py fn \<in> set (map (str_upper py) ps))
                   (available_pattern_functions ta)
    | None \<Rightarrow> available_pattern_functions ta"
  have "series_map = [] \<or> series_map = run_detectors ?t ?o ?h ?l ?c [] ?functions"
    using assms(1)
    by (auto simp: compute_pattern_series_def Let_def split: if_splits sum.splits)
  with assms(2) have "(fn, series) \<in> set (run_detectors ?t ?o ?h ?l ?c [] ?functions)"
    by auto
  from run_detectors_origin [OF this]
  obtain f where f: "fn \<in> set ?functions" "map_of ?t fn = Some f" "f ?o ?h ?l ?c = IsSeries series"
    by auto
  from f(1) have "fn \<in> set (available_pattern_functions ta)"
    by (cases patterns) auto
  then have "take 3 fn = ''CDL''"
    by (auto simp: available_pattern_functions_def split: option.splits)
  moreover from f(2) obtain t where "ta = Some t"
    by (cases ta) auto
  ultimately show ?thesis
    using f(2,3) by auto
qed

lemma subseq_sorted:
  fixes ys :: "'a::linorder list"
  shows "subseq xs ys \<Longrightarrow> sorted ys \<Longrightarrow> sorted xs"
proof (induction rule: list_emb.induct)
  case (list_emb_Nil ys)
  then show ?case by simp
next
  case (list_emb_Cons xs ys y)
  then show ?case by simp
next
  case (list_emb_Cons2 x y xs ys)
  then have "set xs \<subseteq> set ys"
    by (auto dest: list_emb_set)
  with list_emb_Cons2 show ?case by auto
qed

text \<open>
  The history is the days of the window that have hits, in the order of the window, each
  with its date and its hits.
\<close>

lemma history_loop_eq:
  assumes "\<forall>i\<in>set idxs. 0 \<le> i \<and> i < int (length dates)"
  shows "history_loop py series_map dates idxs
     = Inr (map (\<lambda>i. \<lparr>he_date = dates ! nat i, he_hits = day_hits py series_map i\<rparr>)
         (filter (\<lambda>i. day_hits py series_map i \<noteq> []) idxs))"
  using assms by (induction idxs) (auto simp: Let_def py_getitem_def)

lemma window_slice:
  assumes "0 \<le> s"
  shows "map (\<lambda>i. dates ! nat i) [s..int (length dates) - 1] = drop (nat s) dates"
proof (rule nth_equalityI)
  show "length (map (\<lambda>i. dates ! nat i) [s..int (length dates) - 1]) = length (drop (nat s) dates)"
    using assms by auto
next
  fix k
  assume "k < length (map (\<lambda>i. dates ! nat i) [s..int (length dates) - 1])"
  then have k: "s + int k \<le> int (length dates) - 1"
    by auto
  then have "[s..int (length dates) - 1] ! k = s + int k"
    by (rule nth_upto)
  then show "map (\<lambda>i. dates ! nat i) [s..int (length dates) - 1] ! k = drop (nat s) dates ! k"
    using assms k by (simp add: nat_add_distrib)
qed

text \<open>
  C8. On a price series whose date labels pandas converts, one point in time per row,
  \<open>detect_with_history\<close> returns for every lookback, hence also when the series has no
  more days than the lookback. The history has at most as many entries as the series has
  days, and at most \<open>lookback\<close> entries. Every entry belongs to a day of the window: it
  carries the date of that day and at least one hit, and its hits are exactly the
  nonzero integer outputs of the detectors at the position of that day, each under the
  name of its detector. Every series is what the backend function of its name returns
  on the four price columns. The entries follow the order of the days.
\<close>

theorem detect_with_history_window:
  fixes dates :: "'ts::linorder list"
  assumes "to_datetime (date_labels df) = Inr dates"
    and "length dates = length (df_rows df)"
  shows "\<exists>today history series_map ds.
      detect_with_history py ta to_datetime df lookback patterns = Inr (today, history)
      \<and> compute_pattern_series py ta to_datetime df patterns = Inr (series_map, ds)
      \<and> length history \<le> length (df_rows df)
      \<and> (0 \<le> lookback \<longrightarrow> int (length history) \<le> lookback)
      \<and> (\<forall>e\<in>set history. he_hits e \<noteq> []
           \<and> (\<exists>idx. max 0 (int (length dates) - lookback) \<le> idx \<and> idx < int (length dates)
                \<and> he_date e = dates ! nat idx
                \<and> (\<forall>m. m \<in> set (he_hits e) \<longleftrightarrow>
                     (\<exists>fn series x v. (fn, series) \<in> set series_map
                        \<and> py_getitem series idx = Inr x \<and> cell_int py x = Inr v \<and> v \<noteq> 0
                        \<and> m = raw_hit fn (PyInt v)))))
      \<and> (\<forall>(fn, series)\<in>set series_map. \<exists>t f. ta = Some t \<and> map_of t fn = Some f
           \<and> f (df_column df (the (map_of (column_dict df) ''open'')))
                (df_column df (the (map_of (column_dict df) ''high'')))
                (df_column df (the (map_of (column_dict df) ''low'')))
                (df_column df (the (map_of (column_dict df) ''close''))) = IsSeries series)
      \<and> subseq (map he_date history) dates
      \<and> (sorted dates \<longrightarrow> sorted (map he_date history))"
proof -
  have "\<exists>series_map ds.
      compute_pattern_series py ta to_datetime df patterns = Inr (series_map, ds)
      \<and> ((series_map = [] \<and> ds = []) \<or> ds = dates)"
    by (simp add: compute_pattern_series_def Let_def assms(1))
  then obtain series_map ds
    where cps: "compute_pattern_series py ta to_datetime df patterns = Inr (series_map, ds)"
      and ds: "(series_map = [] \<and> ds = []) \<or> ds = dates"
    by blast
  have origin: "\<forall>(fn, series)\<in>set series_map. \<exists>t f. ta = Some t \<and> map_of t fn = Some f
           \<and> f (df_column df (the (map_of (column_dict df) ''open'')))
                (df_column df (the (map_of (column_dict df) ''high'')))
                (df_column df (the (map_of (column_dict df) ''low'')))
                (df_column df (the (map_of (column_dict df) ''close''))) = IsSeries series"
    using compute_pattern_series_origin [OF cps] by blast
  show ?thesis
  proof (cases "ta = None \<or> df_empty df \<or> series_map = []")
    case True
    then have "detect_with_history py ta to_datetime df lookback patterns = Inr ([], [])"
      using cps by (auto simp: detect_with_history_def)
    with cps origin show ?thesis
      by (intro exI [of _ "[]"] exI [of _ series_map] exI [of _ ds]) simp
  next
    case False
    with ds have cps': "compute_pattern_series py ta to_datetime df patterns
        = Inr (series_map, dates)"
      using cps by simp
    define last_index where "last_index = int (length dates) - 1"
    define start where "start = max 0 (last_index - lookback + 1)"
    define history where "history
      = map (\<lambda>i. \<lparr>he_date = dates ! nat i, he_hits = day_hits py series_map i\<rparr>)
          (filter (\<lambda>i. day_hits py series_map i \<noteq> []) [start..last_index])"
    have range: "\<forall>i\<in>set [start..last_index]. 0 \<le> i \<and> i < int (length dates)"
      by (auto simp: start_def last_index_def)
    have loop: "history_loop py series_map dates [start..last_index] = Inr history"
      unfolding history_def using range by (rule history_loop_eq)
    have res: "detect_with_history py ta to_datetime df lookback patterns
        = Inr (day_hits py series_map last_index, history)"
      using False cps' loop unfolding detect_with_history_def last_index_def start_def
      by (auto simp: Let_def)
    have len_h: "length history \<le> length [start..last_index]"
      unfolding history_def length_map by (rule length_filter_le)
    have len: "length [start..last_index] \<le> length dates"
      "0 \<le> lookback \<Longrightarrow> int (length [start..last_index]) \<le> lookback"
      by (auto simp: start_def last_index_def)
    have entries: "\<forall>e\<in>set history. he_hits e \<noteq> []
           \<and> (\<exists>idx. max 0 (int (length dates) - lookback) \<le> idx \<and> idx < int (length dates)
                \<and> he_date e = dates ! nat idx
                \<and> (\<forall>m. m \<in> set (he_hits e) \<longleftrightarrow>
                     (\<exists>fn series x v. (fn, series) \<in> set series_map
                        \<and> py_getitem series idx = Inr x \<and> cell_int py x = Inr v \<and> v \<noteq> 0
                        \<and> m = raw_hit fn (PyInt v))))"
    proof
      fix e
      assume "e \<in> set history"
      then obtain i where i: "i \<in> set [start..last_index]" "day_hits py series_map i \<noteq> []"
        "e = \<lparr>he_date = dates ! nat i, he_hits = day_hits py series_map i\<rparr>"
        unfolding history_def by auto
      from i(1) have "max 0 (int (length dates) - lookback) \<le> i \<and> i < int (length dates)"
        by (auto simp: start_def last_index_def)
      moreover have "\<forall>m. m \<in> set (he_hits e) \<longleftrightarrow>
                     (\<exists>fn series x v. (fn, series) \<in> set series_map
                        \<and> py_getitem series i = Inr x \<and> cell_int py x = Inr v \<and> v \<noteq> 0
                        \<and> m = raw_hit fn (PyInt v))"
        unfolding i(3) by (simp add: day_hits_set)
      moreover have "he_date e = dates ! nat i" "he_hits e \<noteq> []"
        using i(2,3) by simp_all
      ultimately show "he_hits e \<noteq> []
           \<and> (\<exists>idx. max 0 (int (length dates) - lookback) \<le> idx \<and> idx < int (length dates)
                \<and> he_date e = dates ! nat idx
                \<and> (\<forall>m. m \<in> set (he_hits e) \<longleftrightarrow>
                     (\<exists>fn series x v. (fn, series) \<in> set series_map
                        \<and> py_getitem series idx = Inr x \<and> cell_int py x = Inr v \<and> v \<noteq> 0
                        \<and> m = raw_hit fn (PyInt v))))"
        by blast
    qed
    have "map he_date history
        = map (\<lambda>i. dates ! nat i) (filter (\<lambda>i. day_hits py series_map i \<noteq> []) [start..last_index])"
      unfolding history_def by simp
    then have "subseq (map he_date history) (map (\<lambda>i. dates ! nat i) [start..last_index])"
      by (simp add: subseq_map)
    moreover have "map (\<lambda>i. dates ! nat i) [start..last_index] = drop (nat start) dates"
      unfolding last_index_def by (rule window_slice) (simp add: start_def)
    ultimately have sub: "subseq (map he_date history) dates"
      by (metis suffix_drop suffix_imp_subseq subseq_order.order_trans)
    then have srt: "sorted dates \<longrightarrow> sorted (map he_date history)"
      by (auto intro: subseq_sorted)
    have l1: "length history \<le> length (df_rows df)"
      using len_h len(1) assms(2) by linarith
    have l2: "0 \<le> lookback \<longrightarrow> int (length history) \<le> lookback"
      using len_h len(2) by linarith
    show ?thesis
      using res cps' l1 l2 entries origin sub srt
      by (intro exI [of _ "day_hits py series_map last_index"] exI [of _ history]
          exI [of _ series_map] exI [of _ dates]) simp
  qed
qed

lemma sample_dates: "sample_to_datetime (date_labels sample_df) = Inr [1, 2, 3]"
  by (simp add: date_labels_def column_dict_def sample_df_def bar_def df_column_def
      str_lower_def lower_char_def AList.update.simps)

text \<open>
  A series of exactly \<open>lookback\<close> days.
\<close>

theorem detect_with_history_window_witness:
  "\<exists>today history.
      detect_with_history sample_py (Some sample_ta) sample_to_datetime sample_df 3 None
        = Inr (today, history)
      \<and> length history \<le> length (df_rows sample_df)
      \<and> int (length history) \<le> 3
      \<and> subseq (map he_date history) [1, 2, 3]
      \<and> sorted (map he_date history)"
proof -
  have len: "length [1, 2, 3 :: int] = length (df_rows sample_df)"
    by (simp add: sample_df_def)
  have "sorted [1, 2, 3 :: int]" "0 \<le> (3 :: int)"
    by simp_all
  then show ?thesis
    using detect_with_history_window
      [of sample_to_datetime sample_df "[1, 2, 3]" sample_py "Some sample_ta" 3 None,
       OF sample_dates len]
    by blast
qed

text \<open>
  On the sample series the last day has two hits, and the history holds the second and
  the third day.
\<close>

lemma detect_with_history_sample:
  "map_sum id (map_prod length (map he_date))
     (detect_with_history sample_py (Some sample_ta) sample_to_datetime sample_df 3 None)
   = Inr (2, [2, 3])"
  by code_simp

end
